theory Spec2Isabelle
  imports Complex_Main "HOL-Library.Char_ord" "HOL-Library.Sublist"
begin

section \<open>JavaScript strings\<close>

text \<open>
  A JavaScript string is a sequence of UTF-16 code units. The worker's keyword lists, its
  registry and its patterns use code units below 256 only (ASCII and the accented letters of
  Latin-1), so a string is modelled as a \<open>char list\<close> whose characters are the code units
  \<open>0x00 .. 0xFF\<close>: \<open>CHR 0xF3\<close> is the letter o with acute accent. Every statement below
  is about messages written in that range.
\<close>

definition inRange :: "char \<Rightarrow> char \<Rightarrow> char \<Rightarrow> bool" where
  "inRange lo hi c = (lo \<le> c \<and> c \<le> hi)"

text \<open>\<open>\s\<close> of a regular expression and the characters \<open>trim\<close> strips: TAB, LF, VT, FF,
  CR, SPACE and NBSP are the ones below 256.\<close>

definition isSpace :: "char \<Rightarrow> bool" where
  "isSpace c = (inRange (CHR 0x09) (CHR 0x0D) c \<or> c = CHR '' '' \<or> c = CHR 0xA0)"

text \<open>\<open>\d\<close>.\<close>

definition isDigit :: "char \<Rightarrow> bool" where
  "isDigit c = inRange (CHR ''0'') (CHR ''9'') c"

text \<open>\<open>String.prototype.toLowerCase\<close> on one code unit: \<open>A-Z\<close> and the capital letters
  \<open>0xC0 .. 0xDE\<close> (the multiplication sign \<open>0xD7\<close> is not a letter) move up by 32.\<close>

definition toLowerChar :: "char \<Rightarrow> char" where
  "toLowerChar c =
     (if inRange (CHR ''A'') (CHR ''Z'') c \<or> (inRange (CHR 0xC0) (CHR 0xDE) c \<and> c \<noteq> CHR 0xD7)
      then char_of (of_char c + (32::nat)) else c)"

definition toLowerCase :: "string \<Rightarrow> string" where
  "toLowerCase s = map toLowerChar s"

definition trimStart :: "string \<Rightarrow> string" where
  "trimStart s = dropWhile isSpace s"

definition trim :: "string \<Rightarrow> string" where
  "trim s = rev (dropWhile isSpace (rev (dropWhile isSpace s)))"

definition startsWith :: "string \<Rightarrow> string \<Rightarrow> bool" where
  "startsWith s t = (take (length t) s = t)"

definition endsWith :: "string \<Rightarrow> string \<Rightarrow> bool" where
  "endsWith s t = (length t \<le> length s \<and> drop (length s - length t) s = t)"

text \<open>\<open>s.includes(t)\<close>: \<open>t\<close> starts at some index of \<open>s\<close>.\<close>

fun includesStr :: "string \<Rightarrow> string \<Rightarrow> bool" where
  "includesStr [] t = (t = [])"
| "includesStr (x # xs) t = (startsWith (x # xs) t \<or> includesStr xs t)"

text \<open>\<open>s.substring(0, n)\<close>.\<close>

definition substring0 :: "nat \<Rightarrow> string \<Rightarrow> string" where
  "substring0 n s = take n s"

text \<open>\<open>s.replace(c, d)\<close> with a string pattern of one character: the first occurrence only.\<close>

fun replaceFirst :: "char \<Rightarrow> char \<Rightarrow> string \<Rightarrow> string" where
  "replaceFirst c d [] = []"
| "replaceFirst c d (x # xs) = (if x = c then d # xs else x # replaceFirst c d xs)"

text \<open>\<open>s.replace(/[...]/g, '')\<close> with a one-character class: the characters of the class go.\<close>

definition removeAll :: "(char \<Rightarrow> bool) \<Rightarrow> string \<Rightarrow> string" where
  "removeAll p s = filter (\<lambda>c. \<not> p c) s"

datatype jsError = TypeError | BackendError

section \<open>Regular expressions\<close>

text \<open>
  The patterns of the worker, as data. \<open>Chr c\<close> is a literal, \<open>ChrI c\<close> a literal under the
  \<open>i\<close> flag, \<open>Cls p\<close> a character class, \<open>Eos\<close> is \<open>$\<close> (no \<open>m\<close> flag: the end of the
  input), \<open>Rep greedy min max p\<close> a quantified class (\<open>max = None\<close>: unbounded),
  \<open>Grp r\<close> the capture group 1 and \<open>Alt r Eps\<close> is \<open>(?:r)?\<close>.
\<close>

datatype re =
    Eps
  | Chr char
  | ChrI char
  | Cls "char \<Rightarrow> bool"
  | Eos
  | Seq re re
  | Alt re re
  | Rep bool nat "nat option" "char \<Rightarrow> bool"
  | Grp re

type_synonym mstate = "string \<times> string option"

text \<open>
  The matcher is the backtracking matcher of ECMAScript, with the choices it would try laid
  out as a list in the order it tries them: the head of the list is the match it returns.
  A state is the input still to read and what group 1 holds.
\<close>

fun rep :: "bool \<Rightarrow> nat \<Rightarrow> nat option \<Rightarrow> (char \<Rightarrow> bool) \<Rightarrow> string \<Rightarrow> string list" where
  "rep g mn mx p [] = (if mn = 0 then [[]] else [])"
| "rep g mn mx p (x # xs) =
     (let more = (if p x \<and> mx \<noteq> Some 0
                  then rep g (mn - 1) (map_option (\<lambda>k. k - 1) mx) p xs else []);
          stop = (if mn = 0 then [x # xs] else [])
      in if g then more @ stop else stop @ more)"

fun ms :: "re \<Rightarrow> mstate \<Rightarrow> mstate list" where
  "ms Eps st = [st]"
| "ms (Chr a) (s, c) = (case s of [] \<Rightarrow> [] | x # xs \<Rightarrow> if x = a then [(xs, c)] else [])"
| "ms (ChrI a) (s, c) =
     (case s of [] \<Rightarrow> [] | x # xs \<Rightarrow> if toLowerChar x = toLowerChar a then [(xs, c)] else [])"
| "ms (Cls p) (s, c) = (case s of [] \<Rightarrow> [] | x # xs \<Rightarrow> if p x then [(xs, c)] else [])"
| "ms Eos (s, c) = (if s = [] then [(s, c)] else [])"
| "ms (Seq a b) st = concat (map (ms b) (ms a st))"
| "ms (Alt a b) st = ms a st @ ms b st"
| "ms (Rep g mn mx p) (s, c) = map (\<lambda>s'. (s', c)) (rep g mn mx p s)"
| "ms (Grp a) (s, c) =
     map (\<lambda>(s', _). (s', Some (take (length s - length s') s))) (ms a (s, c))"

text \<open>\<open>RegExp.prototype.exec\<close> from index 0: the leftmost index with a match, and there the
  first match in backtracking order. The result is the input after the match and group 1.\<close>

fun search :: "re \<Rightarrow> string \<Rightarrow> mstate option" where
  "search r [] = (case ms r ([], None) of [] \<Rightarrow> None | m # _ \<Rightarrow> Some m)"
| "search r (x # xs) = (case ms r (x # xs, None) of [] \<Rightarrow> search r xs | m # _ \<Rightarrow> Some m)"

definition test :: "re \<Rightarrow> string \<Rightarrow> bool" where
  "test r s = (search r s \<noteq> None)"

definition lit :: "string \<Rightarrow> re" where
  "lit s = foldr (\<lambda>c r. Seq (Chr c) r) s Eps"

definition litI :: "string \<Rightarrow> re" where
  "litI s = foldr (\<lambda>c r. Seq (ChrI c) r) s Eps"

definition seqs :: "re list \<Rightarrow> re" where
  "seqs rs = foldr Seq rs Eps"

definition starOf :: "(char \<Rightarrow> bool) \<Rightarrow> re" where
  "starOf p = Rep True 0 None p"

definition plusOf :: "(char \<Rightarrow> bool) \<Rightarrow> re" where
  "plusOf p = Rep True 1 None p"

definition optOf :: "re \<Rightarrow> re" where
  "optOf r = Alt r Eps"

subsection \<open>What a match consumes and captures\<close>

text \<open>
  Facts about the matcher that hold for every pattern: a match consumes a prefix of the
  input at least as long as the shortest word of the pattern, the characters it consumes
  belong to the pattern's classes, and group 1 holds what its sub-pattern consumed.
\<close>

lemma rep_consumes:
  "s' \<in> set (rep g mn mx p s) \<Longrightarrow>
     \<exists>w. s = w @ s' \<and> (\<forall>x\<in>set w. p x) \<and> mn \<le> length w \<and> (\<forall>k. mx = Some k \<longrightarrow> length w \<le> k)"
proof (induction s arbitrary: mn mx)
  case Nil
  then show ?case by (auto split: if_splits)
next
  case (Cons x xs)
  from Cons.prems consider
      (stop) "mn = 0" "s' = x # xs"
    | (more) "p x" "mx \<noteq> Some 0" "s' \<in> set (rep g (mn - 1) (map_option (\<lambda>k. k - 1) mx) p xs)"
    by (auto simp: Let_def split: if_splits)
  then show ?case
  proof cases
    case stop
    then show ?thesis by simp
  next
    case more
    from Cons.IH[OF more(3)] obtain w where w: "xs = w @ s'" "\<forall>x\<in>set w. p x"
      "mn - 1 \<le> length w" "\<forall>k. map_option (\<lambda>k. k - 1) mx = Some k \<longrightarrow> length w \<le> k"
      by blast
    have "x # xs = (x # w) @ s'" using w(1) by simp
    moreover have "\<forall>y\<in>set (x # w). p y" using w(2) more(1) by simp
    moreover have "mn \<le> length (x # w)" using w(3) by simp
    moreover have "\<forall>k. mx = Some k \<longrightarrow> length (x # w) \<le> k"
      using w(4) more(2) by (cases mx) auto
    ultimately show ?thesis by blast
  qed
qed

fun minLen :: "re \<Rightarrow> nat" where
  "minLen Eps = 0"
| "minLen (Chr a) = 1"
| "minLen (ChrI a) = 1"
| "minLen (Cls p) = 1"
| "minLen Eos = 0"
| "minLen (Seq a b) = minLen a + minLen b"
| "minLen (Alt a b) = min (minLen a) (minLen b)"
| "minLen (Rep g mn mx p) = mn"
| "minLen (Grp a) = minLen a"

lemma ms_consumes:
  "(s', c') \<in> set (ms r (s, c)) \<Longrightarrow> \<exists>w. s = w @ s' \<and> minLen r \<le> length w"
proof (induction r arbitrary: s c s' c')
  case (Seq a b)
  from Seq.prems obtain s1 c1 where m1: "(s1, c1) \<in> set (ms a (s, c))"
    and m2: "(s', c') \<in> set (ms b (s1, c1))" by auto
  from Seq.IH(1)[OF m1] obtain w1 where w1: "s = w1 @ s1" "minLen a \<le> length w1" by blast
  from Seq.IH(2)[OF m2] obtain w2 where w2: "s1 = w2 @ s'" "minLen b \<le> length w2" by blast
  have "s = (w1 @ w2) @ s'" using w1 w2 by simp
  moreover have "minLen (Seq a b) \<le> length (w1 @ w2)" using w1 w2 by simp
  ultimately show ?case by blast
next
  case (Alt a b)
  from Alt.prems have "(s', c') \<in> set (ms a (s, c)) \<or> (s', c') \<in> set (ms b (s, c))" by simp
  then show ?case using Alt.IH by (fastforce simp: min_def)
next
  case (Rep g mn mx p)
  then have "s' \<in> set (rep g mn mx p s)" by auto
  from rep_consumes[OF this] show ?case by auto
next
  case (Grp a)
  then show ?case by auto
qed (auto split: list.splits if_splits)

lemma search_Some:
  "search r s = Some m \<Longrightarrow> \<exists>pre t. s = pre @ t \<and> ms r (t, None) \<noteq> [] \<and> m = hd (ms r (t, None))"
proof (induction s)
  case Nil
  then show ?case by (auto split: list.splits)
next
  case (Cons x xs)
  show ?case
  proof (cases "ms r (x # xs, None)")
    case Nil
    with Cons.prems have "search r xs = Some m" by simp
    from Cons.IH[OF this] obtain pre t where "xs = pre @ t" "ms r (t, None) \<noteq> []" "m = hd (ms r (t, None))"
      by blast
    then have "x # xs = (x # pre) @ t" by simp
    then show ?thesis using \<open>ms r (t, None) \<noteq> []\<close> \<open>m = hd (ms r (t, None))\<close> by blast
  next
    case (Cons m' rest)
    with Cons.prems have "m = m'" by simp
    then have "x # xs = [] @ (x # xs) \<and> ms r (x # xs, None) \<noteq> [] \<and> m = hd (ms r (x # xs, None))"
      using Cons by simp
    then show ?thesis by blast
  qed
qed

lemma search_shorter:
  assumes "search r s = Some (s', c')" "0 < minLen r"
  shows "length s' < length s"
proof -
  from search_Some[OF assms(1)] obtain pre t where pt: "s = pre @ t" "ms r (t, None) \<noteq> []"
    "(s', c') = hd (ms r (t, None))" by blast
  then have "(s', c') \<in> set (ms r (t, None))" by (metis hd_in_set)
  from ms_consumes[OF this] obtain w where "t = w @ s'" "minLen r \<le> length w" by blast
  with pt(1) assms(2) show ?thesis by auto
qed

fun alphabet :: "(char \<Rightarrow> bool) \<Rightarrow> re \<Rightarrow> bool" where
  "alphabet P Eps = True"
| "alphabet P (Chr a) = P a"
| "alphabet P (ChrI a) = (\<forall>x. toLowerChar x = toLowerChar a \<longrightarrow> P x)"
| "alphabet P (Cls p) = (\<forall>x. p x \<longrightarrow> P x)"
| "alphabet P Eos = True"
| "alphabet P (Seq a b) = (alphabet P a \<and> alphabet P b)"
| "alphabet P (Alt a b) = (alphabet P a \<and> alphabet P b)"
| "alphabet P (Rep g mn mx p) = (\<forall>x. p x \<longrightarrow> P x)"
| "alphabet P (Grp a) = alphabet P a"

lemma ms_alphabet:
  "alphabet P r \<Longrightarrow> (s', c') \<in> set (ms r (s, c)) \<Longrightarrow> \<exists>w. s = w @ s' \<and> (\<forall>x\<in>set w. P x)"
proof (induction r arbitrary: s c s' c')
  case (Seq a b)
  from Seq.prems obtain s1 c1 where m1: "(s1, c1) \<in> set (ms a (s, c))"
    and m2: "(s', c') \<in> set (ms b (s1, c1))" by auto
  from Seq.IH(1)[OF _ m1] Seq.prems(1) obtain w1 where w1: "s = w1 @ s1" "\<forall>x\<in>set w1. P x" by auto
  from Seq.IH(2)[OF _ m2] Seq.prems(1) obtain w2 where w2: "s1 = w2 @ s'" "\<forall>x\<in>set w2. P x" by auto
  have "s = (w1 @ w2) @ s'" using w1 w2 by simp
  moreover have "\<forall>x\<in>set (w1 @ w2). P x" using w1 w2 by auto
  ultimately show ?case by blast
next
  case (Alt a b)
  from Alt.prems(2) have "(s', c') \<in> set (ms a (s, c)) \<or> (s', c') \<in> set (ms b (s, c))" by simp
  then show ?case using Alt.IH Alt.prems(1) by (metis alphabet.simps(7))
next
  case (Rep g mn mx p)
  then have "s' \<in> set (rep g mn mx p s)" by auto
  from rep_consumes[OF this] obtain w where "s = w @ s'" "\<forall>x\<in>set w. p x" by blast
  then show ?case using Rep.prems(1) by auto
next
  case (Grp a)
  from Grp.prems(2) obtain c0 where "(s', c0) \<in> set (ms a (s, c))" by auto
  from Grp.IH[OF _ this] Grp.prems(1) show ?case by simp
next
  case (Chr a)
  then show ?case by (cases s) (auto split: if_splits)
next
  case (ChrI a)
  then show ?case by (cases s) (auto split: if_splits)
next
  case (Cls p)
  then show ?case by (cases s) (auto split: if_splits)
qed (auto split: if_splits)

fun groupAlphabet :: "(char \<Rightarrow> bool) \<Rightarrow> re \<Rightarrow> bool" where
  "groupAlphabet P (Grp a) = alphabet P a"
| "groupAlphabet P (Seq a b) = (groupAlphabet P a \<and> groupAlphabet P b)"
| "groupAlphabet P (Alt a b) = (groupAlphabet P a \<and> groupAlphabet P b)"
| "groupAlphabet P r = True"

definition capIn :: "(char \<Rightarrow> bool) \<Rightarrow> string option \<Rightarrow> bool" where
  "capIn P c = (case c of None \<Rightarrow> True | Some w \<Rightarrow> \<forall>x\<in>set w. P x)"

lemma ms_capture:
  "groupAlphabet P r \<Longrightarrow> capIn P c \<Longrightarrow> (s', c') \<in> set (ms r (s, c)) \<Longrightarrow> capIn P c'"
proof (induction r arbitrary: s c s' c')
  case (Seq a b)
  from Seq.prems obtain s1 c1 where m1: "(s1, c1) \<in> set (ms a (s, c))"
    and m2: "(s', c') \<in> set (ms b (s1, c1))" by auto
  from Seq.IH(1)[OF _ Seq.prems(2) m1] Seq.prems(1) have "capIn P c1" by simp
  from Seq.IH(2)[OF _ this m2] Seq.prems(1) show ?case by simp
next
  case (Alt a b)
  from Alt.prems(3) have "(s', c') \<in> set (ms a (s, c)) \<or> (s', c') \<in> set (ms b (s, c))" by simp
  then show ?case using Alt.IH Alt.prems(1,2) by (metis groupAlphabet.simps(3))
next
  case (Grp a)
  from Grp.prems(3) obtain c0 where m: "(s', c0) \<in> set (ms a (s, c))"
    and c': "c' = Some (take (length s - length s') s)" by auto
  from ms_alphabet[OF _ m] Grp.prems(1) obtain w where "s = w @ s'" "\<forall>x\<in>set w. P x" by auto
  then show ?case using c' by (simp add: capIn_def)
qed (auto split: list.splits if_splits)

fun hasGroup :: "re \<Rightarrow> bool" where
  "hasGroup (Grp a) = True"
| "hasGroup (Seq a b) = (hasGroup a \<or> hasGroup b)"
| "hasGroup (Alt a b) = (hasGroup a \<and> hasGroup b)"
| "hasGroup r = False"

lemma ms_keeps_group:
  "c \<noteq> None \<Longrightarrow> (s', c') \<in> set (ms r (s, c)) \<Longrightarrow> c' \<noteq> None"
proof (induction r arbitrary: s c s' c')
  case (Seq a b)
  from Seq.prems obtain s1 c1 where m1: "(s1, c1) \<in> set (ms a (s, c))"
    and m2: "(s', c') \<in> set (ms b (s1, c1))" by auto
  from Seq.IH(1)[OF Seq.prems(1) m1] have "c1 \<noteq> None" .
  from Seq.IH(2)[OF this m2] show ?case .
next
  case (Alt a b)
  from Alt.prems(2) have "(s', c') \<in> set (ms a (s, c)) \<or> (s', c') \<in> set (ms b (s, c))" by simp
  then show ?case using Alt.IH Alt.prems(1) by blast
qed (auto split: list.splits if_splits)

lemma ms_sets_group:
  "hasGroup r \<Longrightarrow> (s', c') \<in> set (ms r (s, c)) \<Longrightarrow> c' \<noteq> None"
proof (induction r arbitrary: s c s' c')
  case (Seq a b)
  from Seq.prems obtain s1 c1 where m1: "(s1, c1) \<in> set (ms a (s, c))"
    and m2: "(s', c') \<in> set (ms b (s1, c1))" by auto
  show ?case
  proof (cases "hasGroup a")
    case True
    from Seq.IH(1)[OF True m1] have "c1 \<noteq> None" .
    from ms_keeps_group[OF this m2] show ?thesis .
  next
    case False
    with Seq.prems(1) have "hasGroup b" by simp
    from Seq.IH(2)[OF this m2] show ?thesis .
  qed
next
  case (Alt a b)
  from Alt.prems(2) have "(s', c') \<in> set (ms a (s, c)) \<or> (s', c') \<in> set (ms b (s, c))" by simp
  then show ?case using Alt.IH Alt.prems(1) by auto
qed auto

section \<open>Amounts\<close>

text \<open>
  A JavaScript number is a double. The model keeps the exact decimal the digits denote, as a
  rational: \<open>parseFloat\<close> returns the double nearest to it (\<open>Infinity\<close> beyond the
  largest one), and rounding is monotone, so an amount is negative, or no larger than
  another, on both sides alike.
\<close>

definition digitVal :: "char \<Rightarrow> nat" where
  "digitVal c = of_char c - of_char (CHR ''0'')"

definition digitsVal :: "string \<Rightarrow> rat" where
  "digitsVal ds = of_nat (foldl (\<lambda>a c. 10 * a + digitVal c) 0 ds)"

text \<open>
  \<open>parseFloat\<close>: leading white space is skipped, then the longest prefix that is a decimal
  literal is read (\<open>[+-]? digits [. digits?]\<close> or \<open>[+-]? . digits\<close>); \<open>None\<close> is NaN.
  An exponent part and the word \<open>Infinity\<close> are not read: the lemma on the cleaned string below shows
  that no string reaching \<open>parseFloat\<close> here holds a letter.
\<close>

definition unsignedDecimal :: "string \<Rightarrow> rat option" where
  "unsignedDecimal u =
     (let ip = takeWhile isDigit u in
      case dropWhile isDigit u of
        [] \<Rightarrow> if ip = [] then None else Some (digitsVal ip)
      | d # v \<Rightarrow>
          if d = CHR ''.'' then
            (let fp = takeWhile isDigit v in
             if ip = [] \<and> fp = [] then None
             else Some (digitsVal ip + digitsVal fp / 10 ^ length fp))
          else if ip = [] then None else Some (digitsVal ip))"

definition parseFloat :: "string \<Rightarrow> rat option" where
  "parseFloat s =
     (case trimStart s of
        [] \<Rightarrow> None
      | x # u \<Rightarrow>
          if x = CHR ''-'' then map_option uminus (unsignedDecimal u)
          else if x = CHR ''+'' then unsignedDecimal u
          else unsignedDecimal (x # u))"

definition isDigitDot :: "char \<Rightarrow> bool" where
  "isDigitDot c = (isDigit c \<or> c = CHR ''.'')"

text \<open>\<open>([\d.]+(?:,\d{2})?)\<close>\<close>

definition amountGroup :: re where
  "amountGroup =
     Grp (Seq (plusOf isDigitDot) (optOf (Seq (Chr (CHR '','')) (Rep True 2 (Some 2) isDigit))))"

text \<open>\<open>/\$\s*([\d.]+(?:,\d{2})?)/g\<close>\<close>

definition dollarPattern :: re where
  "dollarPattern = seqs [Chr (CHR ''$''), starOf isSpace, amountGroup]"

text \<open>\<open>/ARS\s*([\d.]+(?:,\d{2})?)/gi\<close>\<close>

definition arsPattern :: re where
  "arsPattern = seqs [litI ''ARS'', starOf isSpace, amountGroup]"

text \<open>\<open>/,\d{2}$/\<close>\<close>

definition decimalTail :: re where
  "decimalTail = seqs [Chr (CHR '',''), Rep True 2 (Some 2) isDigit, Eos]"

definition parseArgentineAmount :: "string \<Rightarrow> rat" where
  "parseArgentineAmount str =
     (let cleaned0 = trim str;
          cleaned = (if test decimalTail cleaned0
                     then replaceFirst (CHR '','') (CHR ''.'') (removeAll (\<lambda>c. c = CHR ''.'') cleaned0)
                     else removeAll (\<lambda>c. c = CHR ''.'') cleaned0)
      in case parseFloat cleaned of None \<Rightarrow> 0 | Some amount \<Rightarrow> amount)"

datatype amountPattern = DollarPattern | ArsPattern

fun patternRe :: "amountPattern \<Rightarrow> re" where
  "patternRe DollarPattern = dollarPattern"
| "patternRe ArsPattern = arsPattern"

definition patterns :: "amountPattern list" where
  "patterns = [DollarPattern, ArsPattern]"

lemma minLen_seqs [simp]: "minLen (seqs rs) = sum_list (map minLen rs)"
  by (induction rs) (simp_all add: seqs_def)

lemma minLen_patternRe: "0 < minLen (patternRe p)"
  by (cases p) (simp_all add: dollarPattern_def arsPattern_def litI_def)

text \<open>
  The loop \<open>while ((match = pattern.exec(text)) !== null)\<close> of \<open>extractAmount\<close>. A
  global pattern resumes at \<open>lastIndex\<close>, the end of the match before; the patterns have
  no anchor and look at nothing behind them, so resuming is searching the rest of the text.
  \<open>match[1].trim()\<close> on a group that took no part is a \<open>TypeError\<close>.
\<close>

function execLoop :: "amountPattern \<Rightarrow> string \<Rightarrow> rat \<Rightarrow> jsError + rat" where
  "execLoop p text maxAmount =
     (case search (patternRe p) text of
        None \<Rightarrow> Inr maxAmount
      | Some (rest, None) \<Rightarrow> Inl TypeError
      | Some (rest, Some m1) \<Rightarrow>
          execLoop p rest
            (if parseArgentineAmount m1 > maxAmount then parseArgentineAmount m1 else maxAmount))"
  by pat_completeness auto
termination
proof (relation "measure (\<lambda>(p, t, m). length t)")
  show "wf (measure (\<lambda>(p, t, m). length t))" by simp
next
  fix p :: amountPattern and t :: string and maxAmount :: rat
    and x2 :: mstate and rest :: string and y :: "string option" and m1 :: string
  assume "search (patternRe p) t = Some x2" "(rest, y) = x2" "y = Some m1"
  then have "search (patternRe p) t = Some (rest, Some m1)" by simp
  from search_shorter[OF this minLen_patternRe] have "length rest < length t" .
  then show "((p, rest, if maxAmount < parseArgentineAmount m1 then parseArgentineAmount m1 else maxAmount),
              p, t, maxAmount) \<in> measure (\<lambda>(p, t, m). length t)"
    by simp
qed

fun forPatterns :: "amountPattern list \<Rightarrow> string \<Rightarrow> rat \<Rightarrow> jsError + rat" where
  "forPatterns [] text maxAmount = Inr maxAmount"
| "forPatterns (p # ps) text maxAmount =
     (case execLoop p text maxAmount of
        Inl e \<Rightarrow> Inl e
      | Inr maxAmount' \<Rightarrow> forPatterns ps text maxAmount')"

definition extractAmount :: "string \<Rightarrow> jsError + rat" where
  "extractAmount text = forPatterns patterns text 0"

text \<open>
  All matches of a global pattern, as \<open>String.prototype.matchAll\<close> lists them: the
  leftmost match, then the matches of the rest. It names the candidates the claims on
  \<open>extractAmount\<close> speak of.
\<close>

function matchAll :: "amountPattern \<Rightarrow> string \<Rightarrow> string list" where
  "matchAll p text =
     (case search (patternRe p) text of
        None \<Rightarrow> []
      | Some (rest, None) \<Rightarrow> matchAll p rest
      | Some (rest, Some m1) \<Rightarrow> m1 # matchAll p rest)"
  by pat_completeness auto
termination
proof (relation "measure (\<lambda>(p, t). length t)")
  show "wf (measure (\<lambda>(p, t). length t))" by simp
next
  fix p :: amountPattern and t :: string and x2 :: mstate and rest :: string and y :: "string option"
  assume "search (patternRe p) t = Some x2" "(rest, y) = x2" "y = None"
  then have "search (patternRe p) t = Some (rest, None)" by simp
  from search_shorter[OF this minLen_patternRe]
  show "((p, rest), p, t) \<in> measure (\<lambda>(p, t). length t)" by simp
next
  fix p :: amountPattern and t :: string and x2 :: mstate and rest :: string and y :: "string option"
    and m1 :: string
  assume "search (patternRe p) t = Some x2" "(rest, y) = x2" "y = Some m1"
  then have "search (patternRe p) t = Some (rest, Some m1)" by simp
  from search_shorter[OF this minLen_patternRe]
  show "((p, rest), p, t) \<in> measure (\<lambda>(p, t). length t)" by simp
qed

declare execLoop.simps [simp del] matchAll.simps [simp del]

definition candidates :: "string \<Rightarrow> string list" where
  "candidates text = concat (map (\<lambda>p. matchAll p text) patterns)"

text \<open>
  The words of the capture group \<open>[\d.]+(?:,\d{2})?\<close>: digits and dots, then nothing or a
  comma and two digits.
\<close>

definition numericMatch :: "string \<Rightarrow> bool" where
  "numericMatch s =
     (let body = takeWhile isDigitDot s; rest = dropWhile isDigitDot s
      in body \<noteq> [] \<and>
         (rest = [] \<or>
          (length rest = 3 \<and> rest ! 0 = CHR '','' \<and> isDigit (rest ! 1) \<and> isDigit (rest ! 2))))"

text \<open>
  The locale rule in the words of the specification: when the string ends with a comma and
  two digits, these are the fraction and the dots before them separate thousands; otherwise
  every dot separates thousands and the number is whole.
\<close>

definition hasDecimalPart :: "string \<Rightarrow> bool" where
  "hasDecimalPart s =
     (3 \<le> length s \<and> s ! (length s - 3) = CHR '','' \<and>
      isDigit (s ! (length s - 2)) \<and> isDigit (s ! (length s - 1)))"

definition withoutDots :: "string \<Rightarrow> string" where
  "withoutDots s = filter (\<lambda>c. c \<noteq> CHR ''.'') s"

definition localeValue :: "string \<Rightarrow> rat" where
  "localeValue s =
     (if hasDecimalPart s
      then digitsVal (withoutDots (take (length s - 3) s)) + digitsVal (drop (length s - 2) s) / 100
      else digitsVal (withoutDots s))"

definition isDigitDotComma :: "char \<Rightarrow> bool" where
  "isDigitDotComma c = (isDigitDot c \<or> c = CHR '','')"

section \<open>Institutions\<close>

record institution =
  name :: string
  kind :: string
  transactionalDomains :: "string list"
  marketingDomains :: "string list"

text \<open>\<open>FINANCIAL_INSTITUTIONS\<close>, in the order of its keys (\<open>Object.entries\<close> keeps it).\<close>

definition FINANCIAL_INSTITUTIONS :: "(string \<times> institution) list" where
  "FINANCIAL_INSTITUTIONS =
    [(''mercadopago'', \<lparr>name = ''Mercado Pago'', kind = ''fintech'',
        transactionalDomains = [''info@mercadopago.com'', ''info@mercadopago.com.ar''],
        marketingDomains = [''marketing@mercadopago.com'', ''marketing@mercadopago.com.ar'',
                            ''promociones@mercadopago.com'']\<rparr>),
     (''uala'', \<lparr>name = ''Ual'' @ [CHR 0xE1], kind = ''fintech'',
        transactionalDomains = [''@uala.com.ar'', ''@notificaciones.uala.com.ar''],
        marketingDomains = [''@marketing.uala.com.ar'', ''@promo.uala.com.ar'']\<rparr>),
     (''brubank'', \<lparr>name = ''Brubank'', kind = ''fintech'',
        transactionalDomains = [''@brubank.com.ar'', ''@notificaciones.brubank.com.ar''],
        marketingDomains = [''@marketing.brubank.com.ar'']\<rparr>),
     (''naranjax'', \<lparr>name = ''Naranja X'', kind = ''fintech'',
        transactionalDomains = [''@naranjax.com'', ''@notificaciones.naranjax.com''],
        marketingDomains = [''@marketing.naranjax.com'']\<rparr>),
     (''personalpay'', \<lparr>name = ''Personal Pay'', kind = ''fintech'',
        transactionalDomains = [''@personalpay.com.ar''],
        marketingDomains = [''@marketing.personalpay.com.ar'']\<rparr>),
     (''galicia'', \<lparr>name = ''Banco Galicia'', kind = ''bank'',
        transactionalDomains = [''@bancogalicia.com.ar'', ''@e.bancogalicia.com.ar'',
                                ''@notificaciones.bancogalicia.com.ar''],
        marketingDomains = [''@marketing.bancogalicia.com.ar'', ''@ofertas.bancogalicia.com.ar'']\<rparr>),
     (''santander'', \<lparr>name = ''Banco Santander'', kind = ''bank'',
        transactionalDomains = [''@santander.com.ar'', ''@email.santander.com.ar'',
                                ''@notificaciones.santander.com.ar''],
        marketingDomains = [''@marketing.santander.com.ar'', ''@ofertas.santander.com.ar'']\<rparr>),
     (''bbva'', \<lparr>name = ''BBVA'', kind = ''bank'',
        transactionalDomains = [''@bbva.com.ar'', ''@notificaciones.bbva.com.ar''],
        marketingDomains = [''@marketing.bbva.com.ar'']\<rparr>),
     (''nacion'', \<lparr>name = ''Banco Naci'' @ [CHR 0xF3] @ ''n'', kind = ''bank'',
        transactionalDomains = [''@bna.com.ar'', ''@notificaciones.bna.com.ar''],
        marketingDomains = [''@marketing.bna.com.ar'']\<rparr>),
     (''macro'', \<lparr>name = ''Banco Macro'', kind = ''bank'',
        transactionalDomains = [''@macro.com.ar'', ''@notificaciones.macro.com.ar''],
        marketingDomains = [''@marketing.macro.com.ar'']\<rparr>),
     (''hsbc'', \<lparr>name = ''HSBC Argentina'', kind = ''bank'',
        transactionalDomains = [''@hsbc.com.ar'', ''@notificaciones.hsbc.com.ar''],
        marketingDomains = [''@marketing.hsbc.com.ar'']\<rparr>),
     (''icbc'', \<lparr>name = ''ICBC Argentina'', kind = ''bank'',
        transactionalDomains = [''@icbc.com.ar'', ''@notificaciones.icbc.com.ar''],
        marketingDomains = [''@marketing.icbc.com.ar'']\<rparr>)]"

text \<open>The object \<open>identifyInstitution\<close> returns.\<close>

record senderMatch =
  instId :: string
  instName :: string
  instKind :: string
  isMarketing :: bool

text \<open>\<open>/<([^>]+)>/\<close>\<close>

definition anglePattern :: re where
  "anglePattern = seqs [Chr (CHR ''<''), Grp (plusOf (\<lambda>c. c \<noteq> CHR ''>'')), Chr (CHR ''>'')]"

definition extractEmailAddress :: "string \<Rightarrow> jsError + string" where
  "extractEmailAddress from =
     (if from = [] then Inr []
      else let lowerFrom = trim (toLowerCase from)
           in case search anglePattern lowerFrom of
                None \<Rightarrow> Inr lowerFrom
              | Some (rest, None) \<Rightarrow> Inl TypeError
              | Some (rest, Some m1) \<Rightarrow> Inr (trim m1))"

text \<open>One pass of \<open>for (const domain of ...)\<close>: does some entry of the list match?\<close>

definition domainMatches :: "string \<Rightarrow> string \<Rightarrow> bool" where
  "domainMatches email domain =
     (if startsWith domain ''@'' then endsWith email domain else email = domain)"

fun identifyIn :: "(string \<times> institution) list \<Rightarrow> string \<Rightarrow> senderMatch option" where
  "identifyIn [] email = None"
| "identifyIn ((i, inst) # rest) email =
     (if list_ex (domainMatches email) (transactionalDomains inst)
      then Some \<lparr>instId = i, instName = name inst, instKind = kind inst, isMarketing = False\<rparr>
      else if list_ex (domainMatches email) (marketingDomains inst)
      then Some \<lparr>instId = i, instName = name inst, instKind = kind inst, isMarketing = True\<rparr>
      else identifyIn rest email)"

definition identifyInstitution :: "string \<Rightarrow> jsError + senderMatch option" where
  "identifyInstitution from =
     (case extractEmailAddress from of
        Inl e \<Rightarrow> Inl e
      | Inr email \<Rightarrow> if email = [] then Inr None else Inr (identifyIn FINANCIAL_INSTITUTIONS email))"

text \<open>\<open>isFromMercadoPago\<close> of the multi-institution worker, kept there for older callers.\<close>

definition isFromMercadoPago :: "string \<Rightarrow> jsError + bool" where
  "isFromMercadoPago from =
     (case identifyInstitution from of
        Inl e \<Rightarrow> Inl e
      | Inr institution \<Rightarrow> Inr (institution \<noteq> None))"

text \<open>The sender rule in the words of the specification: an entry with a leading \<open>@\<close>
  is a domain and must be the exact tail of the address; any other entry must be the whole
  address.\<close>

definition entryMatches :: "string \<Rightarrow> string \<Rightarrow> bool" where
  "entryMatches entry email =
     (case entry of
        [] \<Rightarrow> email = []
      | x # xs \<Rightarrow> if x = CHR ''@'' then suffix entry email else email = entry)"

definition registryEntries :: "string list" where
  "registryEntries =
     concat (map (\<lambda>(i, inst). transactionalDomains inst @ marketingDomains inst) FINANCIAL_INSTITUTIONS)"

section \<open>Intent\<close>

definition PROMOTIONAL_KEYWORDS :: "string list" where
  "PROMOTIONAL_KEYWORDS =
    [''cashback disponible'', ''ganaste'', ''beneficio exclusivo'', ''descuento'',
     ''oferta especial'', ''promo'', ''cup'' @ [CHR 0xF3] @ ''n'', ''premio'', ''sorteo'', ''regalo'',
     ''aprovech'' @ [CHR 0xE1], ''no te pierdas'', ''por tiempo limitado'', ''solo hoy'',
     [CHR 0xFA] @ ''ltima oportunidad'', ''exclusivo para vos'', ''bonus'', ''puntos extra'',
     ''recompensa'', ''acumul'' @ [CHR 0xE1], ''canje'' @ [CHR 0xE1], ''duplic'' @ [CHR 0xE1],
     ''triplic'' @ [CHR 0xE1]]"

definition transactionKeywords :: "string list" where
  "transactionKeywords =
    [''transferiste'', ''recibiste'', ''pagaste'', ''te transfirieron'',
     ''te pagaron'', ''retiro'', ''dep'' @ [CHR 0xF3] @ ''sito'', ''compra'', ''cobro'',
     ''movimiento'', ''operaci'' @ [CHR 0xF3] @ ''n exitosa'', ''comprobante'']"

text \<open>
  What one call of \<open>env.AI.run\<close> comes to: it throws (or rejects, or returns something whose
  \<open>response\<close> cannot be read), or it returns an object whose \<open>response\<close> is a string or is
  missing. The model's answer may depend on the prompt in any way; the functions below take
  the outcome of the call they make.
\<close>

datatype aiOutcome = AiThrows | AiResponse "string option"

record intent =
  type :: string
  confidence :: string
  reason :: string

definition classifyEmailIntent :: "aiOutcome \<Rightarrow> senderMatch \<Rightarrow> string \<Rightarrow> string \<Rightarrow> intent" where
  "classifyEmailIntent ai institution subject bodyPreview =
     (let subjectLower = toLowerCase subject;
          bodyLower = toLowerCase bodyPreview;
          fullText = subjectLower @ '' '' @ bodyLower
      in case find (includesStr fullText) PROMOTIONAL_KEYWORDS of
           Some keyword \<Rightarrow> \<lparr>type = ''promotional'', confidence = ''keyword'', reason = keyword\<rparr>
         | None \<Rightarrow>
             if isMarketing institution
             then \<lparr>type = ''promotional'', confidence = ''domain'', reason = ''marketing domain''\<rparr>
             else (case find (includesStr fullText) transactionKeywords of
                    Some keyword \<Rightarrow> \<lparr>type = ''transaction'', confidence = ''keyword'', reason = keyword\<rparr>
                  | None \<Rightarrow>
                      (case ai of
                         AiThrows \<Rightarrow> \<lparr>type = ''transaction'', confidence = ''fallback'', reason = ''AI error''\<rparr>
                       | AiResponse r \<Rightarrow>
                           (let response = (case r of None \<Rightarrow> [] | Some x \<Rightarrow> trim (toLowerCase x));
                                isTransaction = includesStr response ''transaction''
                            in \<lparr>type = (if isTransaction then ''transaction'' else ''promotional''),
                                confidence = ''ai'', reason = ''AI: '' @ response\<rparr>))))"

text \<open>The text the keyword rules look at.\<close>

definition intentText :: "string \<Rightarrow> string \<Rightarrow> string" where
  "intentText subject bodyPreview = toLowerCase subject @ '' '' @ toLowerCase bodyPreview"

definition hasKeyword :: "string list \<Rightarrow> string \<Rightarrow> bool" where
  "hasKeyword keywords fullText = (\<exists>keyword\<in>set keywords. includesStr fullText keyword)"

text \<open>What the classifier's answer is read as: lower-cased and trimmed, nothing when missing.\<close>

definition aiAnswer :: "string option \<Rightarrow> string" where
  "aiAnswer r = (case r of None \<Rightarrow> [] | Some x \<Rightarrow> trim (toLowerCase x))"

section \<open>Transactions\<close>

definition VALID_TRANSACTION_TYPES :: "string list" where
  "VALID_TRANSACTION_TYPES =
    [''transfer_received'', ''transfer_sent'', ''payment_received'', ''payment_sent'',
     ''withdrawal'', ''deposit'', ''refund_received'', ''refund_sent'']"

text \<open>\<open>detectTransactionTypeWithAI\<close>: the answer is trimmed, lower-cased and stripped of
  everything but \<open>a-z\<close> and \<open>_\<close>; \<open>null\<close> is \<open>None\<close>. Whatever is thrown is caught.\<close>

definition detectTransactionTypeWithAI :: "aiOutcome \<Rightarrow> string option" where
  "detectTransactionTypeWithAI ai =
     (case ai of
        AiThrows \<Rightarrow> None
      | AiResponse None \<Rightarrow> None
      | AiResponse (Some x) \<Rightarrow>
          (let t = removeAll (\<lambda>c. \<not> (inRange (CHR ''a'') (CHR ''z'') c \<or> c = CHR ''_''))
                     (toLowerCase (trim x))
           in if t \<in> set VALID_TRANSACTION_TYPES then Some t else None))"

text \<open>The keyword chain of \<open>parseTransaction\<close>, branch by branch.\<close>

definition keywordType :: "string \<Rightarrow> string \<Rightarrow> string" where
  "keywordType subjectLower bodyLower =
     (if includesStr subjectLower ''recibiste'' \<or> includesStr subjectLower ''te transfirieron''
         \<or> includesStr subjectLower ''te enviaron'' \<or> includesStr subjectLower ''transferencia recibida''
      then ''transfer_received''
      else if includesStr subjectLower ''te pagaron'' \<or> includesStr subjectLower ''recibiste un pago''
         \<or> includesStr subjectLower ''te depositaron'' \<or> includesStr subjectLower ''pago recibido''
      then ''payment_received''
      else if includesStr subjectLower ''te devolvieron'' \<or> includesStr subjectLower ''reembolso''
         \<or> includesStr bodyLower (''devoluci'' @ [CHR 0xF3] @ ''n a tu favor'')
      then ''refund_received''
      else if includesStr subjectLower ''ingreso'' \<or> includesStr subjectLower ''cargaste''
         \<or> includesStr subjectLower ''acreditamos'' \<or> includesStr subjectLower ''cashback''
         \<or> includesStr subjectLower (''bonificaci'' @ [CHR 0xF3] @ ''n'') \<or> includesStr subjectLower ''ganaste''
      then ''deposit''
      else if includesStr subjectLower ''transferiste'' \<or> includesStr subjectLower ''enviaste''
         \<or> includesStr subjectLower ''transferencia enviada'' \<or> includesStr subjectLower ''fue enviada''
      then ''transfer_sent''
      else if includesStr subjectLower ''pagaste'' \<or> includesStr subjectLower ''compraste''
         \<or> includesStr subjectLower ''qr'' \<or> includesStr subjectLower (''suscripci'' @ [CHR 0xF3] @ ''n'')
         \<or> includesStr subjectLower (''cobro autom'' @ [CHR 0xE1] @ ''tico'') \<or> includesStr subjectLower ''cuota''
         \<or> includesStr subjectLower (''d'' @ [CHR 0xE9] @ ''bito'') \<or> includesStr subjectLower ''pago enviado''
      then ''payment_sent''
      else if includesStr subjectLower ''devolviste'' \<or> includesStr subjectLower ''reembolsaste''
      then ''refund_sent''
      else if includesStr subjectLower ''retiro'' \<or> includesStr bodyLower ''retiro''
         \<or> includesStr subjectLower (''extracci'' @ [CHR 0xF3] @ ''n'')
      then ''withdrawal''
      else ''unknown'')"

text \<open>\<open>[A-Za-z\<AA>-\<ydieresis>]\<close>, the letters of the counterparty patterns: \<open>A-Z\<close>, \<open>a-z\<close>
  and the code units \<open>0xC0 .. 0xFF\<close>. Under the \<open>i\<close> flag the class is the same set.\<close>

definition isLetter :: "char \<Rightarrow> bool" where
  "isLetter c = (inRange (CHR ''A'') (CHR ''Z'') c \<or> inRange (CHR ''a'') (CHR ''z'') c
                 \<or> inRange (CHR 0xC0) (CHR 0xFF) c)"

definition isLetterSpace :: "char \<Rightarrow> bool" where
  "isLetterSpace c = (isLetter c \<or> isSpace c)"

definition isLetterDigit :: "char \<Rightarrow> bool" where
  "isLetterDigit c = (isLetter c \<or> isDigit c)"

definition isLetterDigitSpace :: "char \<Rightarrow> bool" where
  "isLetterDigitSpace c = (isLetter c \<or> isDigit c \<or> isSpace c)"

fun alts :: "re \<Rightarrow> re list \<Rightarrow> re" where
  "alts r [] = r"
| "alts r (x # xs) = Alt r (alts x xs)"

text \<open>\<open>(?:\s*\$|\s*por|\s*$|\s*\.)\<close>\<close>

definition nameEnd :: re where
  "nameEnd = alts (Seq (starOf isSpace) (Chr (CHR ''$'')))
               [Seq (starOf isSpace) (litI ''por''), Seq (starOf isSpace) Eos,
                Seq (starOf isSpace) (Chr (CHR ''.''))]"

text \<open>\<open>([A-Za-z\<AA>-\<ydieresis>][A-Za-z\<AA>-\<ydieresis>\s]{1,30}?)\<close>\<close>

definition lazyName :: re where
  "lazyName = Grp (Seq (Cls isLetter) (Rep False 1 (Some 30) isLetterSpace))"

text \<open>The six patterns of \<open>counterpartyPatterns\<close>, in the order of the array; all carry
  the \<open>i\<close> flag.\<close>

definition counterpartyPatterns :: "re list" where
  "counterpartyPatterns =
    [seqs [litI ''nombre'', plusOf isSpace, ChrI (CHR ''y''), plusOf isSpace, litI ''apellido'',
           plusOf (\<lambda>c. c = CHR '':'' \<or> isSpace c \<or> c = CHR ''*''), optOf (Chr (CHR ''*'')),
           Grp (Seq (Cls isLetter) (Rep False 2 (Some 40) isLetterSpace)),
           optOf (Chr (CHR ''*'')),
           alts (Seq (starOf isSpace) (litI ''Entidad''))
             [Seq (starOf isSpace) Eos, Seq (starOf isSpace) (Chr (CHR 0x0A))]],
     seqs [alts (litI ''transferiste'') [litI ''enviaste'', litI ''transferencia''],
           plusOf isSpace, ChrI (CHR ''a''), plusOf isSpace, lazyName, nameEnd],
     seqs [alts (litI ''de'') [litI ''a'', litI ''para''], plusOf isSpace, lazyName, nameEnd],
     seqs [lazyName, plusOf isSpace, litI ''te'', plusOf isSpace,
           alts (litI (''transfiri'' @ [CHR 0xF3])) [litI (''pag'' @ [CHR 0xF3]), litI (''envi'' @ [CHR 0xF3])]],
     seqs [alts (litI ''destinatario'') [litI ''receptor'', litI ''beneficiario''],
           plusOf (\<lambda>c. c = CHR '':'' \<or> isSpace c),
           Grp (Seq (Cls isLetter) (Rep True 1 (Some 30) isLetterSpace))],
     seqs [alts (litI ''pagaste'') [litI ''compraste''], plusOf isSpace, litI ''en'', plusOf isSpace,
           Grp (Seq (Cls isLetterDigit) (Rep True 1 (Some 30) isLetterDigitSpace))]]"

text \<open>
  \<open>for (const pattern of counterpartyPatterns)\<close>: the first match of each pattern in turn;
  the first whose group 1, trimmed, is longer than one character is the counterparty.
\<close>

fun counterpartyLoop :: "re list \<Rightarrow> string \<Rightarrow> jsError + string option" where
  "counterpartyLoop [] fullText = Inr None"
| "counterpartyLoop (pattern # rest) fullText =
     (case search pattern fullText of
        None \<Rightarrow> counterpartyLoop rest fullText
      | Some (_, None) \<Rightarrow> Inl TypeError
      | Some (_, Some m1) \<Rightarrow>
          if length (trim m1) > 1 then Inr (Some (trim m1)) else counterpartyLoop rest fullText)"

text \<open>\<open>/(?:operaci\<oacute>n|referencia|id|comprobante)[:\s#]*(\d{5,})/i\<close>\<close>

definition refPattern :: re where
  "refPattern =
     seqs [alts (litI (''operaci'' @ [CHR 0xF3] @ ''n'')) [litI ''referencia'', litI ''id'', litI ''comprobante''],
           starOf (\<lambda>c. c = CHR '':'' \<or> isSpace c \<or> c = CHR ''#''),
           Grp (Rep True 5 None isDigit)]"

record transaction =
  type :: string
  amount :: rat
  currency :: string
  counterparty :: "string option"
  description :: "string option"
  referenceId :: "string option"

definition parseTransaction :: "aiOutcome \<Rightarrow> string \<Rightarrow> string \<Rightarrow> jsError + transaction" where
  "parseTransaction ai subject body =
     (let subjectLower = toLowerCase subject;
          bodyLower = toLowerCase body;
          fullText = subject @ '' '' @ body;
          ty = (case detectTransactionTypeWithAI ai of
                  Some aiType \<Rightarrow> aiType
                | None \<Rightarrow> keywordType subjectLower bodyLower)
      in case extractAmount fullText of
           Inl e \<Rightarrow> Inl e
         | Inr a \<Rightarrow>
             (case counterpartyLoop counterpartyPatterns fullText of
                Inl e \<Rightarrow> Inl e
              | Inr cp \<Rightarrow>
                  Inr \<lparr>type = ty, amount = a, currency = ''ARS'', counterparty = cp,
                       description = None,
                       referenceId = (case search refPattern fullText of
                                        None \<Rightarrow> None
                                      | Some (_, m1) \<Rightarrow> m1)\<rparr>))"

text \<open>
  The keyword rules in the words of the specification: an ordered list of groups, each with
  the keywords looked for in the lower-cased subject, the keywords looked for in the
  lower-cased body and the type it gives; the first group with a keyword present decides.
\<close>

definition typeRules :: "(string list \<times> string list \<times> string) list" where
  "typeRules =
    [([''recibiste'', ''te transfirieron'', ''te enviaron'', ''transferencia recibida''], [],
      ''transfer_received''),
     ([''te pagaron'', ''recibiste un pago'', ''te depositaron'', ''pago recibido''], [],
      ''payment_received''),
     ([''te devolvieron'', ''reembolso''], [''devoluci'' @ [CHR 0xF3] @ ''n a tu favor''],
      ''refund_received''),
     ([''ingreso'', ''cargaste'', ''acreditamos'', ''cashback'', ''bonificaci'' @ [CHR 0xF3] @ ''n'',
       ''ganaste''], [], ''deposit''),
     ([''transferiste'', ''enviaste'', ''transferencia enviada'', ''fue enviada''], [],
      ''transfer_sent''),
     ([''pagaste'', ''compraste'', ''qr'', ''suscripci'' @ [CHR 0xF3] @ ''n'',
       ''cobro autom'' @ [CHR 0xE1] @ ''tico'', ''cuota'', ''d'' @ [CHR 0xE9] @ ''bito'', ''pago enviado''], [],
      ''payment_sent''),
     ([''devolviste'', ''reembolsaste''], [], ''refund_sent''),
     ([''retiro'', ''extracci'' @ [CHR 0xF3] @ ''n''], [''retiro''], ''withdrawal'')]"

definition ruleApplies :: "string \<Rightarrow> string \<Rightarrow> string list \<times> string list \<times> string \<Rightarrow> bool" where
  "ruleApplies subjectLower bodyLower rule =
     (case rule of (sk, bk, ty) \<Rightarrow>
        list_ex (includesStr subjectLower) sk \<or> list_ex (includesStr bodyLower) bk)"

definition rulesType :: "string \<Rightarrow> string \<Rightarrow> string" where
  "rulesType subjectLower bodyLower =
     (case find (ruleApplies subjectLower bodyLower) typeRules of
        None \<Rightarrow> ''unknown''
      | Some (sk, bk, ty) \<Rightarrow> ty)"

definition moneyInTypes :: "string list" where
  "moneyInTypes = [''transfer_received'', ''payment_received'', ''refund_received'', ''deposit'']"

definition moneyOutTypes :: "string list" where
  "moneyOutTypes = [''transfer_sent'', ''payment_sent'', ''refund_sent'', ''withdrawal'']"

text \<open>What the type classifier's answer is cleaned to before it is looked up.\<close>

definition cleanType :: "string \<Rightarrow> string" where
  "cleanType x = removeAll (\<lambda>c. \<not> (inRange (CHR ''a'') (CHR ''z'') c \<or> c = CHR ''_''))
                   (toLowerCase (trim x))"

text \<open>
  The counterparty rule in the words of the specification: the trimmed capture of a
  pattern's first match, and whether it qualifies.
\<close>

definition trimmedCapture :: "re \<Rightarrow> string \<Rightarrow> string option" where
  "trimmedCapture p t =
     (case search p t of
        None \<Rightarrow> None
      | Some (_, None) \<Rightarrow> None
      | Some (_, Some m1) \<Rightarrow> Some (trim m1))"

definition qualifies :: "string \<Rightarrow> re \<Rightarrow> bool" where
  "qualifies t p = (case trimmedCapture p t of None \<Rightarrow> False | Some c \<Rightarrow> 1 < length c)"

text \<open>The punctuation characters of ASCII, the markers \<open>*\<close>, \<open>$\<close>, \<open>:\<close> and \<open>.\<close>
  among them.\<close>

definition isPunct :: "char \<Rightarrow> bool" where
  "isPunct c = (inRange (CHR ''!'') (CHR ''/'') c \<or> inRange (CHR '':'') (CHR ''@'') c
                \<or> inRange (CHR ''['') (CHR 0x60) c \<or> inRange (CHR ''{'') (CHR ''~'') c)"

section \<open>Categories\<close>

definition VALID_CATEGORIES :: "string list" where
  "VALID_CATEGORIES =
    [''utilities-bills'', ''food-dining'', ''transportation'', ''shopping-clothing'',
     ''health-wellness'', ''recreation-entertainment'', ''financial-obligations'',
     ''savings-investments'', ''miscellaneous-other'']"

text \<open>\<open>xs.join(sep)\<close>.\<close>

fun joinWith :: "string \<Rightarrow> string list \<Rightarrow> string" where
  "joinWith sep [] = []"
| "joinWith sep [x] = x"
| "joinWith sep (x # y # ys) = x @ sep @ joinWith sep (y # ys)"

text \<open>\<open>[counterparty, description, subject].filter(Boolean)\<close>: \<open>null\<close> and the empty
  string go.\<close>

definition filterBoolean :: "string option list \<Rightarrow> string list" where
  "filterBoolean xs = filter (\<lambda>s. s \<noteq> []) (List.map_filter id xs)"

text \<open>
  The body of the \<open>try\<close> block of \<open>categorizeWithAI\<close>. The prompt is not modelled: it only
  feeds the external call, whose outcome is the parameter. The transaction type only enters
  the prompt.
\<close>

definition categorizeTry ::
  "aiOutcome \<Rightarrow> string option \<Rightarrow> string option \<Rightarrow> string \<Rightarrow> jsError + string" where
  "categorizeTry ai counterpartyArg descriptionArg subject =
     (let context = trim (joinWith '' '' (filterBoolean [counterpartyArg, descriptionArg, Some subject]))
      in if context = [] then Inr ''miscellaneous-other''
         else case ai of
                AiThrows \<Rightarrow> Inl TypeError
              | AiResponse None \<Rightarrow> Inr ''miscellaneous-other''
              | AiResponse (Some x) \<Rightarrow>
                  (let category = removeAll (\<lambda>c. \<not> (inRange (CHR ''a'') (CHR ''z'') c \<or> c = CHR ''-''))
                                    (toLowerCase (trim x))
                   in if category \<in> set VALID_CATEGORIES then Inr category
                      else Inr ''miscellaneous-other''))"

text \<open>\<open>categorizeWithAI\<close>: the \<open>catch\<close> turns whatever was thrown into the default.\<close>

definition categorizeWithAI ::
  "aiOutcome \<Rightarrow> string option \<Rightarrow> string option \<Rightarrow> string \<Rightarrow> string \<Rightarrow> string" where
  "categorizeWithAI ai counterpartyArg descriptionArg subject transactionType =
     (case categorizeTry ai counterpartyArg descriptionArg subject of
        Inl e \<Rightarrow> ''miscellaneous-other''
      | Inr category \<Rightarrow> category)"

section \<open>Fingerprint\<close>

text \<open>
  A byte is a \<open>char\<close>. \<open>TextEncoder.encode\<close> writes a code unit below 128 as one byte and
  one from 128 to 255 as two. \<open>crypto.subtle.digest('SHA-256', data)\<close> belongs to the
  platform: the digest function is a parameter.
\<close>

definition utf8 :: "string \<Rightarrow> char list" where
  "utf8 s = concat (map (\<lambda>c. if of_char c < (128::nat) then [c]
                              else [char_of (192 + of_char c div (64::nat)),
                                    char_of (128 + of_char c mod (64::nat))]) s)"

definition hexDigit :: "nat \<Rightarrow> char" where
  "hexDigit n = ''0123456789abcdef'' ! n"

text \<open>\<open>b.toString(16)\<close>\<close>

fun toString16 :: "nat \<Rightarrow> string" where
  "toString16 n = (if n < 16 then [hexDigit n] else toString16 (n div 16) @ [hexDigit (n mod 16)])"

text \<open>\<open>s.padStart(2, '0')\<close>\<close>

definition padStart2 :: "string \<Rightarrow> string" where
  "padStart2 s = replicate (2 - length s) (CHR ''0'') @ s"

definition createHash :: "(char list \<Rightarrow> char list) \<Rightarrow> string \<Rightarrow> string" where
  "createHash sha256 str =
     concat (map (\<lambda>b. padStart2 (toString16 (of_char b))) (sha256 (utf8 str)))"

text \<open>\<open>createHash(subject + emailBody.substring(0, 200))\<close>, as both handlers call it.\<close>

definition fingerprint :: "(char list \<Rightarrow> char list) \<Rightarrow> string \<Rightarrow> string \<Rightarrow> string" where
  "fingerprint sha256 subject emailBody = createHash sha256 (subject @ substring0 200 emailBody)"


section \<open>The email handler\<close>

text \<open>
  The message the platform delivers: the envelope addresses and the raw content, read to its
  end (\<open>streamToString\<close>).
\<close>

record message =
  msgTo :: string
  msgFrom :: string
  msgRaw :: string

text \<open>\<open>/^user_([a-z0-9_]+)@/\<close>: anchored at the start, so it is matched at index 0 only.\<close>

definition isIdChar :: "char \<Rightarrow> bool" where
  "isIdChar c = (inRange (CHR ''a'') (CHR ''z'') c \<or> isDigit c \<or> c = CHR ''_'')"

definition userIdPattern :: re where
  "userIdPattern = seqs [lit ''user_'', Grp (plusOf isIdChar), Chr (CHR ''@'')]"

definition extractUserId :: "string \<Rightarrow> string option" where
  "extractUserId addr =
     (if addr = [] then None
      else case ms userIdPattern (toLowerCase addr, None) of
             [] \<Rightarrow> None
           | (_, m1) # _ \<Rightarrow> m1)"

text \<open>
  What is passed to \<open>sendToBackend\<close>, one constructor for each object the two workers
  build; \<open>receivedAt\<close>, the time of the call, is left out.
  \<^item> \<open>PromotionalRecord userId institution institutionName subject classificationReason\<close>
  \<^item> \<open>ParseFailedRecord userId institution subject bodyPreview\<close>
  \<^item> \<open>TransactionRecord userId transaction emailHash category institution subject from\<close>
  \<^item> \<open>WorkerErrorRecord\<close>, with reason \<open>worker_error\<close>
  \<^item> \<open>NotMercadoPagoRecord userId from subject\<close>, with reason \<open>not_mercadopago\<close>
  \<^item> \<open>LegacyParseFailedRecord userId subject bodyPreview\<close>
  \<^item> \<open>LegacyTransactionRecord userId transaction emailHash category subject from\<close>
\<close>

datatype payload =
    PromotionalRecord string string string string string
  | ParseFailedRecord string string string string
  | TransactionRecord string transaction string string senderMatch string string
  | WorkerErrorRecord
  | NotMercadoPagoRecord string string string
  | LegacyParseFailedRecord string string string
  | LegacyTransactionRecord string transaction string "string option" string string

text \<open>
  What the handler does not decide itself: the normaliser (\<open>extractEmailBody\<close> and
  \<open>extractHeader(rawEmail, 'Subject')\<close>, pure functions of the raw content that throw
  nothing), the outcomes of the three classifier calls, whether the backend answers a post
  with success (\<open>sendToBackend\<close> throws otherwise), and the platform's SHA-256.
\<close>

record handlerEnv =
  extractEmailBody :: "string \<Rightarrow> string"
  extractSubject :: "string \<Rightarrow> string option"
  intentAnswer :: aiOutcome
  typeAnswer :: aiOutcome
  categoryAnswer :: aiOutcome
  backendOk :: "payload \<Rightarrow> bool"
  digest :: "char list \<Rightarrow> char list"

text \<open>A run of the \<open>try\<close> block: the posts made to the webhook, what was thrown if anything,
  and whether the handler posted the message (user id, subject, body and the confirmation
  link it found) to \<open>/forward-verification\<close>, the only other outbound call it makes.\<close>

type_synonym tryResult = "payload list \<times> jsError option \<times> bool"

definition sendToBackend :: "handlerEnv \<Rightarrow> payload \<Rightarrow> tryResult" where
  "sendToBackend env data = ([data], if backendOk env data then None else Some BackendError, False)"

definition isGmailVerification :: "string \<Rightarrow> bool" where
  "isGmailVerification from =
     (includesStr from ''forwarding-noreply@google.com'' \<or> includesStr from ''noreply@google.com'')"

text \<open>The handler of the multi-institution worker.\<close>

definition emailTry :: "handlerEnv \<Rightarrow> message \<Rightarrow> tryResult" where
  "emailTry env message =
     (case extractUserId (msgTo message) of
        None \<Rightarrow> ([], None, False)
      | Some userId \<Rightarrow>
          (let rawEmail = msgRaw message;
               emailBody = extractEmailBody env rawEmail;
               subject = (case extractSubject env rawEmail of None \<Rightarrow> [] | Some s \<Rightarrow> s);
               from = msgFrom message
           in if isGmailVerification from then ([], None, True)
              else (case identifyInstitution from of
                      Inl e \<Rightarrow> ([], Some e, False)
                    | Inr None \<Rightarrow> ([], None, False)
                    | Inr (Some institution) \<Rightarrow>
                        (let intent = classifyEmailIntent (intentAnswer env) institution subject
                                        (substring0 500 emailBody)
                         in if intent.type intent = ''promotional''
                            then sendToBackend env
                                   (PromotionalRecord userId (instId institution) (instName institution)
                                      subject (reason intent))
                            else (case parseTransaction (typeAnswer env) subject emailBody of
                                    Inl e \<Rightarrow> ([], Some e, False)
                                  | Inr tx \<Rightarrow>
                                      if amount tx \<le> 0
                                      then sendToBackend env
                                             (ParseFailedRecord userId (instId institution) subject
                                                (substring0 500 emailBody))
                                      else sendToBackend env
                                             (TransactionRecord userId tx
                                                (fingerprint (digest env) subject emailBody)
                                                (categorizeWithAI (categoryAnswer env) (counterparty tx)
                                                   (description tx) subject (transaction.type tx))
                                                institution subject from))))))"

record outcome =
  sent :: "payload list"
  forwarded :: bool

text \<open>The \<open>catch\<close>: one more post, with reason \<open>worker_error\<close>, whose own failure is ignored.\<close>

definition afterCatch :: "tryResult \<Rightarrow> outcome" where
  "afterCatch r =
     (case r of
        (posts, None, fwd) \<Rightarrow> \<lparr>sent = posts, forwarded = fwd\<rparr>
      | (posts, Some e, fwd) \<Rightarrow> \<lparr>sent = posts @ [WorkerErrorRecord], forwarded = fwd\<rparr>)"

definition email :: "handlerEnv \<Rightarrow> message \<Rightarrow> outcome" where
  "email env message = afterCatch (emailTry env message)"

subsection \<open>The single-institution worker\<close>

text \<open>
  The second worker of the repository handles Mercado Pago only. Its \<open>extractUserId\<close>,
  \<open>extractAmount\<close>, \<open>parseArgentineAmount\<close>, \<open>createHash\<close>, counterparty patterns and
  keyword chain are the same text as above; what differs is modelled here.
\<close>

definition isFromMercadoPago_legacy :: "string \<Rightarrow> bool" where
  "isFromMercadoPago_legacy from =
     (if from = [] then False
      else list_ex (includesStr (toLowerCase from)) [''info@mercadopago.com'', ''info@mercadopago.com.ar''])"

definition parseTransaction_legacy :: "string \<Rightarrow> string \<Rightarrow> jsError + transaction" where
  "parseTransaction_legacy subject body =
     (let subjectLower = toLowerCase subject;
          bodyLower = toLowerCase body;
          fullText = subject @ '' '' @ body
      in case extractAmount fullText of
           Inl e \<Rightarrow> Inl e
         | Inr a \<Rightarrow>
             (case counterpartyLoop counterpartyPatterns fullText of
                Inl e \<Rightarrow> Inl e
              | Inr cp \<Rightarrow>
                  Inr \<lparr>type = keywordType subjectLower bodyLower, amount = a, currency = ''ARS'',
                       counterparty = cp, description = None,
                       referenceId = (case search refPattern fullText of
                                        None \<Rightarrow> None
                                      | Some (_, m1) \<Rightarrow> m1)\<rparr>))"

definition categorizeWithAI_legacy ::
  "aiOutcome \<Rightarrow> string option \<Rightarrow> string option \<Rightarrow> string \<Rightarrow> string" where
  "categorizeWithAI_legacy ai counterpartyArg descriptionArg subject =
     (case categorizeTry ai counterpartyArg descriptionArg subject of
        Inl e \<Rightarrow> ''miscellaneous-other''
      | Inr category \<Rightarrow> category)"

definition expenseTypes :: "string list" where
  "expenseTypes = [''transfer_sent'', ''payment_sent'', ''withdrawal'', ''refund_sent'']"

definition emailTry_legacy :: "handlerEnv \<Rightarrow> message \<Rightarrow> tryResult" where
  "emailTry_legacy env message =
     (case extractUserId (msgTo message) of
        None \<Rightarrow> ([], None, False)
      | Some userId \<Rightarrow>
          (let rawEmail = msgRaw message;
               emailBody = extractEmailBody env rawEmail;
               subject = (case extractSubject env rawEmail of None \<Rightarrow> [] | Some s \<Rightarrow> s);
               from = msgFrom message
           in if isGmailVerification from then ([], None, True)
              else if \<not> isFromMercadoPago_legacy from
              then sendToBackend env (NotMercadoPagoRecord userId from subject)
              else (case parseTransaction_legacy subject emailBody of
                      Inl e \<Rightarrow> ([], Some e, False)
                    | Inr tx \<Rightarrow>
                        if amount tx \<le> 0
                        then sendToBackend env
                               (LegacyParseFailedRecord userId subject (substring0 500 emailBody))
                        else sendToBackend env
                               (LegacyTransactionRecord userId tx
                                  (fingerprint (digest env) subject emailBody)
                                  (if transaction.type tx \<in> set expenseTypes
                                   then Some (categorizeWithAI_legacy (categoryAnswer env) (counterparty tx)
                                                (description tx) subject)
                                   else None)
                                  subject from))))"

definition email_legacy :: "handlerEnv \<Rightarrow> message \<Rightarrow> outcome" where
  "email_legacy env message = afterCatch (emailTry_legacy env message)"

text \<open>An example: a message from an address no institution uses, and a backend that accepts
  every post.\<close>

definition exampleEnv :: handlerEnv where
  "exampleEnv = \<lparr>extractEmailBody = (\<lambda>r. r), extractSubject = (\<lambda>r. None), intentAnswer = AiThrows,
      typeAnswer = AiThrows, categoryAnswer = AiThrows, backendOk = (\<lambda>p. True), digest = (\<lambda>d. [])\<rparr>"

definition exampleMessage :: message where
  "exampleMessage = \<lparr>msgTo = ''user_7@jamty.xyz'', msgFrom = ''unknown@random.com'', msgRaw = ''hola''\<rparr>"

text \<open>A forwarding verification of Gmail, from an address no institution uses.\<close>

definition verificationMessage :: message where
  "verificationMessage = \<lparr>msgTo = ''user_7@jamty.xyz'', msgFrom = ''noreply@google.com'', msgRaw = ''hola''\<rparr>"

text \<open>A second example: a transfer notice of Mercado Pago with the subject
  \<open>Recibiste $50\<close> and the body \<open>hola\<close>, which is what the normaliser reads from
  its raw content, and the classifiers down.\<close>

definition transferEnv :: handlerEnv where
  "transferEnv = \<lparr>extractEmailBody = (\<lambda>r. ''hola''), extractSubject = (\<lambda>r. Some ''Recibiste $50''),
      intentAnswer = AiThrows, typeAnswer = AiThrows, categoryAnswer = AiThrows,
      backendOk = (\<lambda>p. True), digest = (\<lambda>d. [])\<rparr>"

definition transferMessage :: message where
  "transferMessage = \<lparr>msgTo = ''user_7@jamty.xyz'', msgFrom = ''info@mercadopago.com'',
      msgRaw = ''Subject: Recibiste $50'' @ [CHR 0x0A, CHR 0x0A] @ ''hola''\<rparr>"

definition transferTx :: transaction where
  "transferTx = \<lparr>type = ''transfer_received'', amount = 50, currency = ''ARS'', counterparty = None,
      description = None, referenceId = None\<rparr>"

section \<open>Lemmas on the amount\<close>

subsection \<open>The loop computes a maximum\<close>

lemma hasGroup_seqs [simp]: "hasGroup (seqs rs) = (\<exists>r\<in>set rs. hasGroup r)"
  by (induction rs) (simp_all add: seqs_def)

lemma hasGroup_patternRe: "hasGroup (patternRe p)"
  by (cases p) (simp_all add: dollarPattern_def arsPattern_def amountGroup_def)

lemma search_group:
  assumes "search r s = Some (s', c')" "hasGroup r"
  shows "c' \<noteq> None"
proof -
  from search_Some[OF assms(1)] obtain t where "ms r (t, None) \<noteq> []"
    "(s', c') = hd (ms r (t, None))" by blast
  then have "(s', c') \<in> set (ms r (t, None))" by (metis hd_in_set)
  from ms_sets_group[OF assms(2) this] show ?thesis .
qed

lemma execLoop_fold:
  "execLoop p t mx = Inr (foldl max mx (map parseArgentineAmount (matchAll p t)))"
proof (induction p t mx rule: execLoop.induct)
  case (1 p t maxAmount)
  show ?case
  proof (cases "search (patternRe p) t")
    case None
    then show ?thesis by (simp add: execLoop.simps[of p t] matchAll.simps[of p t])
  next
    case (Some st)
    obtain rest c where st: "st = (rest, c)" by (cases st)
    from search_group[OF _ hasGroup_patternRe] Some st obtain m1 where c: "c = Some m1" by fastforce
    have step: "execLoop p t maxAmount =
        execLoop p rest (if parseArgentineAmount m1 > maxAmount then parseArgentineAmount m1 else maxAmount)"
      using Some st c by (simp add: execLoop.simps[of p t])
    have ma: "matchAll p t = m1 # matchAll p rest"
      using Some st c by (simp add: matchAll.simps[of p t])
    have mx: "(if parseArgentineAmount m1 > maxAmount then parseArgentineAmount m1 else maxAmount)
        = max maxAmount (parseArgentineAmount m1)" by (simp add: max_def)
    from "1.IH"[OF Some st[symmetric] c] step ma mx show ?thesis by simp
  qed
qed

lemma forPatterns_fold:
  "forPatterns ps text mx =
     Inr (foldl max mx (map parseArgentineAmount (concat (map (\<lambda>p. matchAll p text) ps))))"
  by (induction ps arbitrary: mx) (simp_all add: execLoop_fold)

lemma foldl_max_Max: "foldl max (a::rat) xs = Max (insert a (set xs))"
proof (induction xs arbitrary: a)
  case Nil
  then show ?case by simp
next
  case (Cons x xs)
  have "Max (insert (max a x) (set xs)) = Max (insert a (insert x (set xs)))"
    by (cases "set xs = {}") (simp_all add: max.assoc)
  with Cons show ?case by simp
qed

lemma extractAmount_Max:
  "extractAmount text = Inr (Max (insert 0 (parseArgentineAmount ` set (candidates text))))"
  by (simp add: extractAmount_def forPatterns_fold foldl_max_Max candidates_def)

subsection \<open>What the candidates look like\<close>

lemma groupAlphabet_seqs [simp]: "groupAlphabet P (seqs rs) = (\<forall>r\<in>set rs. groupAlphabet P r)"
  by (induction rs) (simp_all add: seqs_def)

lemma groupAlphabet_patternRe: "groupAlphabet isDigitDotComma (patternRe p)"
  by (cases p)
     (simp_all add: dollarPattern_def arsPattern_def amountGroup_def litI_def starOf_def plusOf_def
        optOf_def isDigitDotComma_def isDigitDot_def)

lemma search_member:
  assumes "search r s = Some m"
  shows "\<exists>t. suffix t s \<and> m \<in> set (ms r (t, None))"
proof -
  from search_Some[OF assms] obtain pre t where "s = pre @ t" "ms r (t, None) \<noteq> []"
    "m = hd (ms r (t, None))" by blast
  then have "suffix t s \<and> m \<in> set (ms r (t, None))" by (simp add: suffix_def)
  then show ?thesis by blast
qed

lemma matchAll_member:
  "m \<in> set (matchAll p t) \<Longrightarrow> \<exists>u rest. search (patternRe p) u = Some (rest, Some m)"
proof (induction p t rule: matchAll.induct)
  case (1 p t)
  show ?case
  proof (cases "search (patternRe p) t")
    case None
    with "1.prems" show ?thesis by (simp add: matchAll.simps[of p t])
  next
    case (Some st)
    obtain rest c where st: "st = (rest, c)" by (cases st)
    show ?thesis
    proof (cases c)
      case None
      with Some st "1.prems" have "m \<in> set (matchAll p rest)" by (simp add: matchAll.simps[of p t])
      from "1.IH"(1)[OF Some st[symmetric] None this] show ?thesis .
    next
      case (Some m1)
      with \<open>search (patternRe p) t = Some st\<close> st "1.prems"
      have "m = m1 \<or> m \<in> set (matchAll p rest)" by (simp add: matchAll.simps[of p t])
      then show ?thesis
      proof
        assume "m = m1"
        with \<open>search (patternRe p) t = Some st\<close> st Some show ?thesis by blast
      next
        assume "m \<in> set (matchAll p rest)"
        from "1.IH"(2)[OF \<open>search (patternRe p) t = Some st\<close> st[symmetric] Some this] show ?thesis .
      qed
    qed
  qed
qed

lemma candidates_member:
  "m \<in> set (candidates t) \<Longrightarrow> \<exists>p u rest. search (patternRe p) u = Some (rest, Some m)"
proof -
  assume "m \<in> set (candidates t)"
  then obtain p where "m \<in> set (matchAll p t)" by (auto simp: candidates_def)
  from matchAll_member[OF this] show ?thesis by blast
qed

lemma candidate_alphabet:
  assumes "m \<in> set (candidates t)"
  shows "\<forall>x\<in>set m. isDigitDotComma x"
proof -
  from candidates_member[OF assms] obtain p u rest
    where "search (patternRe p) u = Some (rest, Some m)" by blast
  from search_member[OF this] obtain v where "(rest, Some m) \<in> set (ms (patternRe p) (v, None))"
    by blast
  from ms_capture[OF groupAlphabet_patternRe _ this] have "capIn isDigitDotComma (Some m)"
    by (simp add: capIn_def)
  then show ?thesis by (simp add: capIn_def)
qed

lemma set_trim: "set (trim s) \<subseteq> set s"
proof -
  have "set (dropWhile isSpace (rev (dropWhile isSpace s))) \<subseteq> set (rev (dropWhile isSpace s))"
    by (rule set_dropWhileD[THEN subsetI]) 
  also have "\<dots> \<subseteq> set s" by (auto dest: set_dropWhileD)
  finally show ?thesis by (simp add: trim_def)
qed

lemma set_replaceFirst: "set (replaceFirst c d s) \<subseteq> insert d (set s)"
  by (induction s) auto

lemma digitsVal_nonneg: "0 \<le> digitsVal ds"
  by (simp add: digitsVal_def)

lemma unsignedDecimal_nonneg: "unsignedDecimal u = Some a \<Longrightarrow> 0 \<le> a"
  by (auto simp: unsignedDecimal_def Let_def digitsVal_nonneg split: list.splits if_splits)

text \<open>What reaches \<open>parseFloat\<close>: digits, dots and commas, so no sign, no exponent, no letter.\<close>

lemma cleaned_chars:
  assumes "\<forall>x\<in>set m. isDigitDotComma x"
  shows "\<forall>x\<in>set (replaceFirst (CHR '','') (CHR ''.'') (removeAll (\<lambda>c. c = CHR ''.'') (trim m))). isDigitDotComma x"
    and "\<forall>x\<in>set (removeAll (\<lambda>c. c = CHR ''.'') (trim m)). isDigitDotComma x"
proof -
  show 2: "\<forall>x\<in>set (removeAll (\<lambda>c. c = CHR ''.'') (trim m)). isDigitDotComma x"
    using assms set_trim[of m] by (auto simp: removeAll_def)
  have "isDigitDotComma (CHR ''.'')" by (simp add: isDigitDotComma_def isDigitDot_def)
  with 2 set_replaceFirst[of "CHR '',''" "CHR ''.''" "removeAll (\<lambda>c. c = CHR ''.'') (trim m)"]
  show "\<forall>x\<in>set (replaceFirst (CHR '','') (CHR ''.'') (removeAll (\<lambda>c. c = CHR ''.'') (trim m))). isDigitDotComma x"
    by auto
qed

lemma parseFloat_nonneg:
  assumes "\<forall>x\<in>set s. isDigitDotComma x" "parseFloat s = Some a"
  shows "0 \<le> a"
proof -
  have nm: "\<not> isDigitDotComma (CHR ''-'')"
    by (simp add: isDigitDotComma_def isDigitDot_def isDigit_def inRange_def)
  have sub: "set (trimStart s) \<subseteq> set s" by (auto simp: trimStart_def dest: set_dropWhileD)
  show ?thesis
  proof (cases "trimStart s")
    case Nil
    with assms(2) show ?thesis by (simp add: parseFloat_def)
  next
    case (Cons x u)
    then have "x \<in> set s" using sub by auto
    with assms(1) nm have "x \<noteq> CHR ''-''" by auto
    with Cons assms(2) show ?thesis
      by (auto simp: parseFloat_def dest: unsignedDecimal_nonneg split: if_splits)
  qed
qed

lemma parseArgentineAmount_nonneg:
  assumes "\<forall>x\<in>set m. isDigitDotComma x"
  shows "0 \<le> parseArgentineAmount m"
  using cleaned_chars[OF assms] parseFloat_nonneg
  by (auto simp: parseArgentineAmount_def Let_def split: option.splits)

lemma extractAmount_Max_nonempty:
  assumes "candidates t \<noteq> []"
  shows "extractAmount t = Inr (Max (parseArgentineAmount ` set (candidates t)))"
proof -
  let ?S = "parseArgentineAmount ` set (candidates t)"
  have ne: "?S \<noteq> {}" using assms by simp
  have "\<forall>a\<in>?S. 0 \<le> a" using candidate_alphabet parseArgentineAmount_nonneg by blast
  then have "0 \<le> Max ?S" using ne by (meson Max_in finite_imageI finite_set)
  then have "Max (insert 0 ?S) = Max ?S" using ne by (simp add: max_def)
  then show ?thesis by (simp add: extractAmount_Max)
qed

lemma length2_conv: "length xs = 2 \<longleftrightarrow> (\<exists>a b. xs = [a, b])"
  by (auto simp: length_Suc_conv numeral_2_eq_2)

lemma length3_conv: "length xs = 3 \<longleftrightarrow> (\<exists>a b c. xs = [a, b, c])"
  by (auto simp: length_Suc_conv numeral_3_eq_3)

lemma numericMatch_cases:
  assumes "numericMatch s"
  obtains (whole) "s \<noteq> []" "\<forall>c\<in>set s. isDigitDot c"
  | (decimal) body a b where "s = body @ [CHR '','', a, b]" "body \<noteq> []" "\<forall>c\<in>set body. isDigitDot c"
      "isDigit a" "isDigit b"
proof -
  let ?body = "takeWhile isDigitDot s" and ?rest = "dropWhile isDigitDot s"
  have split: "s = ?body @ ?rest" by simp
  from assms have ne: "?body \<noteq> []" by (simp add: numericMatch_def Let_def)
  have all: "\<forall>c\<in>set ?body. isDigitDot c" by (auto dest: set_takeWhileD)
  from assms consider "?rest = []"
    | "length ?rest = 3" "?rest ! 0 = CHR '',''" "isDigit (?rest ! 1)" "isDigit (?rest ! 2)"
    by (auto simp: numericMatch_def Let_def)
  then show thesis
  proof cases
    case 1
    then have "s = ?body" using split by (metis append_Nil2)
    then show ?thesis using whole ne all by metis
  next
    case 2
    from 2(1) obtain x y z where r: "?rest = [x, y, z]"
      unfolding length3_conv by blast
    with 2 have "x = CHR '',''" "isDigit y" "isDigit z" by simp_all
    with r split have "s = ?body @ [CHR '','', y, z]" by simp
    then show ?thesis using decimal ne all \<open>isDigit y\<close> \<open>isDigit z\<close> by blast
  qed
qed

lemma numericMatchI:
  assumes "body \<noteq> []" "\<forall>c\<in>set body. isDigitDot c"
    "dec = [] \<or> (\<exists>a b. dec = [CHR '','', a, b] \<and> isDigit a \<and> isDigit b)"
  shows "numericMatch (body @ dec)"
proof -
  have nc: "\<not> isDigitDot (CHR '','')" by (simp add: isDigitDot_def isDigit_def inRange_def)
  from assms(3) have stop: "dec = [] \<or> \<not> isDigitDot (hd dec)" using nc by auto
  have tw: "takeWhile isDigitDot (body @ dec) = body"
    using assms(2) stop by (cases dec) simp_all
  have dw: "dropWhile isDigitDot (body @ dec) = dec"
    using assms(2) stop by (cases dec) simp_all
  show ?thesis
    unfolding numericMatch_def Let_def tw dw using assms(1,3) by auto
qed

lemma ms_SeqD:
  "(s', c') \<in> set (ms (Seq a b) st) \<Longrightarrow>
     \<exists>s1 c1. (s1, c1) \<in> set (ms a st) \<and> (s', c') \<in> set (ms b (s1, c1))"
  by auto

lemma ms_AltD:
  "(s', c') \<in> set (ms (Alt a b) st) \<Longrightarrow> (s', c') \<in> set (ms a st) \<or> (s', c') \<in> set (ms b st)"
  by auto

lemma ms_GrpD:
  "(s', c') \<in> set (ms (Grp a) (s, c)) \<Longrightarrow>
     \<exists>c0. (s', c0) \<in> set (ms a (s, c)) \<and> c' = Some (take (length s - length s') s)"
  by auto

lemma ms_RepD:
  "(s', c') \<in> set (ms (Rep g mn mx p) (s, c)) \<Longrightarrow> c' = c \<and> s' \<in> set (rep g mn mx p s)"
  by auto

lemma ms_ChrD:
  "(s', c') \<in> set (ms (Chr a) (s, c)) \<Longrightarrow> s = a # s' \<and> c' = c"
  by (cases s) (auto split: if_splits)

lemma ms_amountGroup:
  assumes "(s', c') \<in> set (ms amountGroup (s, c))"
  shows "\<exists>m. c' = Some m \<and> numericMatch m"
proof -
  let ?dec = "Seq (Chr (CHR '','')) (Rep True 2 (Some 2) isDigit)"
  let ?inner = "Seq (Rep True 1 None isDigitDot) (Alt ?dec Eps)"
  have "amountGroup = Grp ?inner" by (simp add: amountGroup_def plusOf_def optOf_def)
  with assms have "(s', c') \<in> set (ms (Grp ?inner) (s, c))" by simp
  from ms_GrpD[OF this] obtain c0 where inner: "(s', c0) \<in> set (ms ?inner (s, c))"
    and c': "c' = Some (take (length s - length s') s)" by blast
  from ms_SeqD[OF inner] obtain s1 c1 where m1: "(s1, c1) \<in> set (ms (Rep True 1 None isDigitDot) (s, c))"
    and alt: "(s', c0) \<in> set (ms (Alt ?dec Eps) (s1, c1))" by blast
  from ms_RepD[OF m1] have r1: "s1 \<in> set (rep True 1 None isDigitDot s)" by simp
  from rep_consumes[OF r1] obtain w1 where w1: "s = w1 @ s1" "\<forall>x\<in>set w1. isDigitDot x" "1 \<le> length w1"
    by blast
  from ms_AltD[OF alt] consider (dec) "(s', c0) \<in> set (ms ?dec (s1, c1))" | (none) "s' = s1" by auto
  then show ?thesis
  proof cases
    case none
    with w1 c' have "c' = Some (w1 @ [])" by simp
    moreover have "numericMatch (w1 @ [])" using w1 by (intro numericMatchI) auto
    ultimately show ?thesis by blast
  next
    case dec
    from ms_SeqD[OF dec] obtain s2 c2 where k: "(s2, c2) \<in> set (ms (Chr (CHR '','')) (s1, c1))"
      and d: "(s', c0) \<in> set (ms (Rep True 2 (Some 2) isDigit) (s2, c2))" by blast
    from ms_ChrD[OF k] have s2: "s1 = CHR '','' # s2" by simp
    from ms_RepD[OF d] have r2: "s' \<in> set (rep True 2 (Some 2) isDigit s2)" by simp
    from rep_consumes[OF r2] obtain w2 where w2: "s2 = w2 @ s'" "\<forall>x\<in>set w2. isDigit x"
      "2 \<le> length w2" "length w2 \<le> 2" by auto
    then have "length w2 = 2" by simp
    then obtain a b where ab: "w2 = [a, b]"
      unfolding length2_conv by blast
    with w1 s2 w2 c' have "c' = Some (w1 @ [CHR '','', a, b])" by simp
    moreover have "numericMatch (w1 @ [CHR '','', a, b])"
      using w1 w2 ab by (intro numericMatchI) auto
    ultimately show ?thesis by blast
  qed
qed

lemma ms_patternRe:
  assumes "(s', c') \<in> set (ms (patternRe p) st)"
  shows "\<exists>m. c' = Some m \<and> numericMatch m"
proof -
  have "\<exists>pre. patternRe p = Seq pre (Seq (starOf isSpace) (Seq amountGroup Eps))"
    by (cases p) (simp_all add: dollarPattern_def arsPattern_def seqs_def)
  then obtain pre where "patternRe p = Seq pre (Seq (starOf isSpace) (Seq amountGroup Eps))" by blast
  with assms have "(s', c') \<in> set (ms (Seq pre (Seq (starOf isSpace) (Seq amountGroup Eps))) st)" by simp
  from ms_SeqD[OF this] obtain s1 c1
    where "(s', c') \<in> set (ms (Seq (starOf isSpace) (Seq amountGroup Eps)) (s1, c1))" by blast
  from ms_SeqD[OF this] obtain s2 c2
    where "(s', c') \<in> set (ms (Seq amountGroup Eps) (s2, c2))" by blast
  from ms_SeqD[OF this] obtain s3 c3
    where "(s3, c3) \<in> set (ms amountGroup (s2, c2))" "(s', c') \<in> set (ms Eps (s3, c3))" by blast
  then have "(s', c') \<in> set (ms amountGroup (s2, c2))" by simp
  from ms_amountGroup[OF this] show ?thesis .
qed

lemma candidate_numericMatch:
  assumes "m \<in> set (candidates t)"
  shows "numericMatch m"
proof -
  from candidates_member[OF assms] obtain p u rest
    where "search (patternRe p) u = Some (rest, Some m)" by blast
  from search_member[OF this] obtain v where "(rest, Some m) \<in> set (ms (patternRe p) (v, None))"
    by blast
  from ms_patternRe[OF this] show ?thesis by simp
qed

subsection \<open>The locale rule\<close>

lemma search_None_iff: "search r s = None \<longleftrightarrow> (\<forall>t. suffix t s \<longrightarrow> ms r (t, None) = [])"
proof (induction s)
  case Nil
  show ?case by (cases "ms r ([], None)") simp_all
next
  case (Cons x xs)
  show ?case
  proof (cases "ms r (x # xs, None)")
    case Nil
    then show ?thesis using Cons.IH by (auto simp: suffix_Cons)
  next
    case (Cons m rest)
    then have "search r (x # xs) \<noteq> None" by simp
    moreover have "suffix (x # xs) (x # xs) \<and> ms r (x # xs, None) \<noteq> []" using Cons by simp
    ultimately show ?thesis by blast
  qed
qed

lemma digit_facts:
  "isDigit c \<Longrightarrow> \<not> isSpace c" "isDigit c \<Longrightarrow> c \<noteq> CHR ''-''" "isDigit c \<Longrightarrow> c \<noteq> CHR ''+''"
  "isDigit c \<Longrightarrow> c \<noteq> CHR ''.''" "isDigit c \<Longrightarrow> c \<noteq> CHR '',''"
  "\<not> isDigit (CHR ''.'')" "\<not> isSpace (CHR ''.'')" "\<not> isDigit (CHR '','')"
  by (auto simp: isDigit_def isSpace_def inRange_def less_eq_char_def)

lemma ms_decimalTail:
  "ms decimalTail (t, None) \<noteq> [] \<longleftrightarrow> (\<exists>a b. t = [CHR '','', a, b] \<and> isDigit a \<and> isDigit b)"
proof
  assume "ms decimalTail (t, None) \<noteq> []"
  then obtain s' c' where m: "(s', c') \<in> set (ms decimalTail (t, None))"
    by (metis hd_in_set surj_pair)
  have dt: "decimalTail = Seq (Chr (CHR '','')) (Seq (Rep True 2 (Some 2) isDigit) (Seq Eos Eps))"
    by (simp add: decimalTail_def seqs_def)
  from m[unfolded dt] ms_SeqD obtain s1 c1 where k: "(s1, c1) \<in> set (ms (Chr (CHR '','')) (t, None))"
    and r: "(s', c') \<in> set (ms (Seq (Rep True 2 (Some 2) isDigit) (Seq Eos Eps)) (s1, c1))" by blast
  from ms_SeqD[OF r] obtain s2 c2 where d: "(s2, c2) \<in> set (ms (Rep True 2 (Some 2) isDigit) (s1, c1))"
    and e: "(s', c') \<in> set (ms (Seq Eos Eps) (s2, c2))" by blast
  from e have "s2 = []" by (auto split: if_splits)
  from ms_ChrD[OF k] have t: "t = CHR '','' # s1" by simp
  from ms_RepD[OF d] have "s2 \<in> set (rep True 2 (Some 2) isDigit s1)" by simp
  from rep_consumes[OF this] \<open>s2 = []\<close> have "\<forall>x\<in>set s1. isDigit x" "length s1 = 2" by auto
  then obtain a b where "s1 = [a, b]" "isDigit a" "isDigit b"
    unfolding length2_conv by auto
  with t show "\<exists>a b. t = [CHR '','', a, b] \<and> isDigit a \<and> isDigit b" by simp
next
  assume "\<exists>a b. t = [CHR '','', a, b] \<and> isDigit a \<and> isDigit b"
  then show "ms decimalTail (t, None) \<noteq> []"
    by (auto simp: decimalTail_def seqs_def)
qed

lemma suffix3:
  "suffix [x, y, z] s \<longleftrightarrow>
     3 \<le> length s \<and> s ! (length s - 3) = x \<and> s ! (length s - 2) = y \<and> s ! (length s - 1) = z"
proof
  assume "suffix [x, y, z] s"
  then obtain pre where "s = pre @ [x, y, z]" by (auto simp: suffix_def)
  then show "3 \<le> length s \<and> s ! (length s - 3) = x \<and> s ! (length s - 2) = y \<and> s ! (length s - 1) = z"
    by (simp add: nth_append)
next
  assume a: "3 \<le> length s \<and> s ! (length s - 3) = x \<and> s ! (length s - 2) = y \<and> s ! (length s - 1) = z"
  then have l: "length (drop (length s - 3) s) = 3" by simp
  then obtain p q r where d: "drop (length s - 3) s = [p, q, r]"
    unfolding length3_conv by blast
  have "p = drop (length s - 3) s ! 0" "q = drop (length s - 3) s ! 1" "r = drop (length s - 3) s ! 2"
    using d by simp_all
  moreover have "length s - 3 + 1 = length s - 2" "length s - 3 + 2 = length s - 1" using a by linarith+
  ultimately have "p = x" "q = y" "r = z" using a by simp_all
  with d have "s = take (length s - 3) s @ [x, y, z]" by (metis append_take_drop_id)
  then show "suffix [x, y, z] s" by (metis suffixI)
qed

text \<open>\<open>/,\d{2}$/.test(s)\<close> says that \<open>s\<close> ends with a comma and two digits.\<close>

lemma test_decimalTail: "test decimalTail s = hasDecimalPart s"
proof -
  have "test decimalTail s \<longleftrightarrow> (\<exists>t. suffix t s \<and> ms decimalTail (t, None) \<noteq> [])"
    by (simp add: test_def search_None_iff)
  also have "\<dots> \<longleftrightarrow> (\<exists>a b. suffix [CHR '','', a, b] s \<and> isDigit a \<and> isDigit b)"
    by (auto simp: ms_decimalTail)
  also have "\<dots> \<longleftrightarrow> hasDecimalPart s"
    by (auto simp: suffix3 hasDecimalPart_def)
  finally show ?thesis .
qed

lemma trim_id:
  assumes "s \<noteq> []" "\<not> isSpace (hd s)" "\<not> isSpace (last s)"
  shows "trim s = s"
proof -
  from assms(1,2) have 1: "dropWhile isSpace s = s" by (cases s) simp_all
  from assms(1,3) have 2: "dropWhile isSpace (rev s) = rev s" by (cases "rev s") (simp_all add: hd_rev)
  show ?thesis by (simp add: trim_def 1 2)
qed

lemma parseFloat_digits:
  assumes "\<forall>x\<in>set ds. isDigit x"
  shows "parseFloat ds = (if ds = [] then None else Some (digitsVal ds))"
proof (cases ds)
  case Nil
  then show ?thesis by (simp add: parseFloat_def trimStart_def)
next
  case (Cons x u)
  with assms have x: "isDigit x" by simp
  have tw: "takeWhile isDigit ds = ds" using assms by simp
  have dw: "dropWhile isDigit ds = []" using assms by simp
  have ud: "unsignedDecimal ds = Some (digitsVal ds)"
    unfolding unsignedDecimal_def Let_def tw dw using Cons by simp
  have "trimStart ds = x # u" using Cons x by (simp add: trimStart_def digit_facts)
  then show ?thesis using Cons x ud by (simp add: parseFloat_def digit_facts)
qed

lemma parseFloat_decimal:
  assumes "\<forall>x\<in>set ds. isDigit x" "isDigit a" "isDigit b"
  shows "parseFloat (ds @ [CHR ''.'', a, b]) = Some (digitsVal ds + digitsVal [a, b] / 100)"
proof -
  have tw: "takeWhile isDigit (ds @ [CHR ''.'', a, b]) = ds"
    using assms(1) by (simp add: digit_facts)
  have dw: "dropWhile isDigit (ds @ [CHR ''.'', a, b]) = [CHR ''.'', a, b]"
    using assms(1) by (simp add: digit_facts)
  have ud: "unsignedDecimal (ds @ [CHR ''.'', a, b]) = Some (digitsVal ds + digitsVal [a, b] / 100)"
    unfolding unsignedDecimal_def Let_def tw dw using assms(2,3) by simp
  obtain x u where xu: "ds @ [CHR ''.'', a, b] = x # u" by (cases ds) auto
  then have x: "x = CHR ''.'' \<or> isDigit x" using assms(1) by (cases ds) auto
  then have "\<not> isSpace x" "x \<noteq> CHR ''-''" "x \<noteq> CHR ''+''" using digit_facts by auto
  then show ?thesis using ud xu by (simp add: parseFloat_def trimStart_def)
qed

lemma replaceFirst_append:
  "c \<notin> set xs \<Longrightarrow> replaceFirst c d (xs @ c # ys) = xs @ d # ys"
  by (induction xs) auto

lemma digitDot_filter:
  assumes "\<forall>c\<in>set body. isDigitDot c"
  shows "\<forall>x\<in>set (withoutDots body). isDigit x"
  using assms by (auto simp: withoutDots_def isDigitDot_def)

lemma parseArgentineAmount_localeValue:
  assumes "numericMatch m"
  shows "parseArgentineAmount m = localeValue m"
  using assms
proof (cases rule: numericMatch_cases)
  case whole
  have ns: "\<And>c. isDigitDot c \<Longrightarrow> \<not> isSpace c" by (auto simp: isDigitDot_def digit_facts)
  from whole have "\<not> isSpace (hd m)" "\<not> isSpace (last m)" using ns by simp_all
  with whole have tr: "trim m = m" by (intro trim_id)
  have nd: "\<not> hasDecimalPart m"
  proof
    assume "hasDecimalPart m"
    then have "m ! (length m - 3) = CHR '',''" "length m - 3 < length m"
      by (auto simp: hasDecimalPart_def)
    then have "CHR '','' \<in> set m" by (metis nth_mem)
    with whole(2) show False by (auto simp: isDigitDot_def digit_facts)
  qed
  have rm: "removeAll (\<lambda>c. c = CHR ''.'') m = withoutDots m" by (simp add: removeAll_def withoutDots_def)
  have "parseFloat (withoutDots m) = (if withoutDots m = [] then None else Some (digitsVal (withoutDots m)))"
    using digitDot_filter[OF whole(2)] by (rule parseFloat_digits)
  moreover have "digitsVal [] = 0" by (simp add: digitsVal_def)
  ultimately show ?thesis
    by (simp add: parseArgentineAmount_def Let_def tr test_decimalTail nd rm localeValue_def)
next
  case (decimal body a b)
  have ns: "\<And>c. isDigitDot c \<Longrightarrow> \<not> isSpace c" by (auto simp: isDigitDot_def digit_facts)
  from decimal have "\<not> isSpace (hd m)" "\<not> isSpace (last m)" using ns by (simp_all add: digit_facts)
  with decimal have tr: "trim m = m" by (intro trim_id) simp_all
  have hd: "hasDecimalPart m" using decimal by (simp add: hasDecimalPart_def nth_append)
  have dg: "\<forall>x\<in>set (withoutDots body). isDigit x" using digitDot_filter[OF decimal(3)] .
  have rm: "removeAll (\<lambda>c. c = CHR ''.'') m = withoutDots body @ [CHR '','', a, b]"
    using decimal by (simp add: removeAll_def withoutDots_def digit_facts)
  have "CHR '','' \<notin> set (withoutDots body)" using dg by (auto simp: digit_facts)
  then have rf: "replaceFirst (CHR '','') (CHR ''.'') (withoutDots body @ [CHR '','', a, b])
      = withoutDots body @ [CHR ''.'', a, b]" by (simp add: replaceFirst_append)
  have pf: "parseFloat (withoutDots body @ [CHR ''.'', a, b])
      = Some (digitsVal (withoutDots body) + digitsVal [a, b] / 100)"
    using dg decimal(4,5) by (rule parseFloat_decimal)
  have lv: "localeValue m = digitsVal (withoutDots body) + digitsVal [a, b] / 100"
    using hd decimal(1) by (simp add: localeValue_def)
  show ?thesis
    by (simp add: parseArgentineAmount_def Let_def tr test_decimalTail hd rm rf pf lv)
qed

section \<open>Lemmas on the sender\<close>

lemma endsWith_suffix: "endsWith s t \<longleftrightarrow> suffix t s"
proof
  assume "endsWith s t"
  then have "s = take (length s - length t) s @ t"
    by (metis append_take_drop_id endsWith_def)
  then show "suffix t s" by (metis suffixI)
next
  assume "suffix t s"
  then obtain zs where "s = zs @ t" by (auto simp: suffix_def)
  then show "endsWith s t" by (simp add: endsWith_def)
qed

lemma domainMatches_entryMatches: "domainMatches addr entry = entryMatches entry addr"
  by (cases entry) (simp_all add: domainMatches_def entryMatches_def startsWith_def endsWith_suffix)

lemma identifyIn_None:
  "identifyIn reg addr = None \<longleftrightarrow>
     (\<forall>(i, inst)\<in>set reg. \<forall>d\<in>set (transactionalDomains inst @ marketingDomains inst).
        \<not> domainMatches addr d)"
  by (induction reg addr rule: identifyIn.induct) (auto simp: list_ex_iff)

lemma identifyIn_registryEntries:
  "identifyIn FINANCIAL_INSTITUTIONS addr = None \<longleftrightarrow>
     (\<forall>entry\<in>set registryEntries. \<not> entryMatches entry addr)"
  unfolding identifyIn_None registryEntries_def
  by (simp only: domainMatches_entryMatches) fastforce

lemma hasGroup_anglePattern: "hasGroup anglePattern"
  by (simp add: anglePattern_def)

lemma extractEmailAddress_total: "\<exists>addr. extractEmailAddress from = Inr addr"
proof (cases "from = []")
  case True
  then show ?thesis by (simp add: extractEmailAddress_def)
next
  case False
  show ?thesis
  proof (cases "search anglePattern (trim (toLowerCase from))")
    case None
    with False show ?thesis by (simp add: extractEmailAddress_def)
  next
    case (Some st)
    obtain rest c where st: "st = (rest, c)" by (cases st)
    from search_group[OF _ hasGroup_anglePattern] Some st obtain m1 where "c = Some m1" by fastforce
    with False Some st show ?thesis by (simp add: extractEmailAddress_def)
  qed
qed

lemma entryMatches_suffix: "entryMatches entry addr \<Longrightarrow> suffix entry addr"
  by (cases entry) (auto simp: entryMatches_def split: if_splits)

subsection \<open>Evaluating the patterns on a given text\<close>

lemmas cls_defs = isDigit_def isSpace_def isDigitDot_def inRange_def toLowerChar_def char_of_def
  bit_Suc_0_iff
lemmas re_defs = seqs_def lit_def litI_def starOf_def plusOf_def optOf_def
lemmas amt_defs = extractAmount_def patterns_def dollarPattern_def arsPattern_def amountGroup_def
  decimalTail_def parseArgentineAmount_def test_def trim_def removeAll_def parseFloat_def trimStart_def
  unsignedDecimal_def digitsVal_def digitVal_def execLoop.simps

lemmas inst_defs = identifyInstitution_def extractEmailAddress_def anglePattern_def toLowerCase_def
  FINANCIAL_INSTITUTIONS_def domainMatches_def startsWith_def endsWith_def trim_def

section \<open>Lemmas on the intent\<close>

lemmas intent_defs = classifyEmailIntent_def PROMOTIONAL_KEYWORDS_def transactionKeywords_def
  toLowerCase_def startsWith_def trim_def intentText_def aiAnswer_def

lemma find_None_hasKeyword: "find (includesStr t) ks = None \<longleftrightarrow> \<not> hasKeyword ks t"
  by (auto simp: find_None_iff hasKeyword_def)

lemma find_Some_hasKeyword: "find (includesStr t) ks = Some k \<Longrightarrow> hasKeyword ks t"
  by (auto simp: find_Some_iff hasKeyword_def intro: nth_mem)

section \<open>Lemmas on the transaction\<close>

lemmas tx_defs = parseTransaction_def detectTransactionTypeWithAI_def keywordType_def
  VALID_TRANSACTION_TYPES_def counterpartyPatterns_def nameEnd_def lazyName_def refPattern_def
  isLetter_def isLetterSpace_def isLetterDigit_def isLetterDigitSpace_def removeAll_def
  toLowerCase_def startsWith_def

lemma keywordType_rulesType: "keywordType sl bl = rulesType sl bl"
  by (simp add: keywordType_def rulesType_def typeRules_def ruleApplies_def)

lemma rulesType_unknown:
  "(\<forall>rule\<in>set typeRules. \<not> ruleApplies sl bl rule) \<Longrightarrow> rulesType sl bl = ''unknown''"
  by (simp add: rulesType_def find_None_iff[THEN iffD2])

lemma hasGroup_alts [simp]: "hasGroup (alts r rs) = (hasGroup r \<and> (\<forall>x\<in>set rs. hasGroup x))"
  by (induction r rs rule: alts.induct) auto

lemma groupAlphabet_alts [simp]:
  "groupAlphabet P (alts r rs) = (groupAlphabet P r \<and> (\<forall>x\<in>set rs. groupAlphabet P x))"
  by (induction r rs rule: alts.induct) auto

lemma hasGroup_counterpartyPatterns: "\<forall>p\<in>set counterpartyPatterns. hasGroup p"
  by (simp add: counterpartyPatterns_def lazyName_def)

lemma groupAlphabet_litI [simp]: "groupAlphabet P (litI s)"
  by (induction s) (simp_all add: litI_def)

lemma groupAlphabet_counterpartyPatterns:
  "\<forall>p\<in>set counterpartyPatterns. groupAlphabet isLetterDigitSpace p"
  by (simp add: counterpartyPatterns_def lazyName_def nameEnd_def starOf_def plusOf_def optOf_def
        isLetterDigitSpace_def isLetterSpace_def isLetterDigit_def)

lemma counterpartyLoop_find:
  assumes "\<forall>p\<in>set ps. hasGroup p"
  shows "counterpartyLoop ps t =
     Inr (case find (qualifies t) ps of None \<Rightarrow> None | Some p \<Rightarrow> trimmedCapture p t)"
  using assms
proof (induction ps)
  case Nil
  then show ?case by simp
next
  case (Cons p ps)
  then have IH: "counterpartyLoop ps t =
     Inr (case find (qualifies t) ps of None \<Rightarrow> None | Some p \<Rightarrow> trimmedCapture p t)" by simp
  from Cons.prems have g: "hasGroup p" by simp
  show ?case
  proof (cases "search p t")
    case None
    then have tc: "trimmedCapture p t = None" by (simp add: trimmedCapture_def)
    then have q: "\<not> qualifies t p" by (simp add: qualifies_def)
    show ?thesis using None IH q by simp
  next
    case (Some st)
    obtain rest c where st: "st = (rest, c)" by (cases st)
    from search_group[OF _ g] Some st obtain m1 where c: "c = Some m1" by fastforce
    have tc: "trimmedCapture p t = Some (trim m1)" using Some st c by (simp add: trimmedCapture_def)
    then have q: "qualifies t p = (1 < length (trim m1))" by (simp add: qualifies_def)
    show ?thesis using Some st c IH tc q by simp
  qed
qed

lemma trim_ends:
  assumes "trim s \<noteq> []"
  shows "\<not> isSpace (hd (trim s)) \<and> \<not> isSpace (last (trim s))"
proof -
  let ?u = "dropWhile isSpace (rev (dropWhile isSpace s))"
  have t: "trim s = rev ?u" by (simp add: trim_def)
  with assms have ne: "?u \<noteq> []" by simp
  then have 1: "\<not> isSpace (hd ?u)" by (rule hd_dropWhile)
  then have l: "\<not> isSpace (last (trim s))" using t ne by (simp add: last_rev)
  have "rev (dropWhile isSpace s) = takeWhile isSpace (rev (dropWhile isSpace s)) @ ?u" by simp
  then have "dropWhile isSpace s = rev ?u @ rev (takeWhile isSpace (rev (dropWhile isSpace s)))"
    by (metis rev_append rev_rev_ident)
  then have "hd (dropWhile isSpace s) = hd (rev ?u)" using ne by (metis hd_append2 rev_is_Nil_conv)
  moreover have "dropWhile isSpace s \<noteq> []"
  proof
    assume a: "dropWhile isSpace s = []"
    have "?u = []" unfolding a by simp
    with ne show False by simp
  qed
  then have "\<not> isSpace (hd (dropWhile isSpace s))" by (rule hd_dropWhile)
  ultimately have "\<not> isSpace (hd (trim s))" using t by simp
  with l show ?thesis by simp
qed

lemma letter_not_punct: "isLetterDigitSpace c \<Longrightarrow> \<not> isPunct c"
  by (auto simp: isLetterDigitSpace_def isLetter_def isDigit_def isSpace_def isPunct_def inRange_def
        less_eq_char_def)

lemma trimmedCapture_chars:
  assumes "trimmedCapture p t = Some c" "groupAlphabet isLetterDigitSpace p"
  shows "\<forall>x\<in>set c. isLetterDigitSpace x"
proof -
  from assms(1) obtain rest m1 where s: "search p t = Some (rest, Some m1)" and c: "c = trim m1"
    by (auto simp: trimmedCapture_def split: option.splits)
  from search_member[OF s] obtain v where "(rest, Some m1) \<in> set (ms p (v, None))" by blast
  from ms_capture[OF assms(2) _ this] have "capIn isLetterDigitSpace (Some m1)"
    by (simp add: capIn_def)
  then have "\<forall>x\<in>set m1. isLetterDigitSpace x" by (simp add: capIn_def)
  with c set_trim[of m1] show ?thesis by auto
qed

lemma trimmedCapture_trim: "trimmedCapture p t = Some c \<Longrightarrow> \<exists>m1. c = trim m1"
  by (auto simp: trimmedCapture_def split: option.splits)

lemma extractAmount_total: "\<exists>a. extractAmount t = Inr a"
  by (simp add: extractAmount_Max)

lemma parseTransaction_total:
  "\<exists>tx. parseTransaction ai subject body = Inr tx
      \<and> transaction.type tx = (case detectTransactionTypeWithAI ai of
                                  Some aiType \<Rightarrow> aiType
                                | None \<Rightarrow> keywordType (toLowerCase subject) (toLowerCase body))
      \<and> Inr (counterparty tx) = counterpartyLoop counterpartyPatterns (subject @ '' '' @ body)
      \<and> Inr (amount tx) = extractAmount (subject @ '' '' @ body)"
proof -
  from extractAmount_total obtain a where a: "extractAmount (subject @ '' '' @ body) = Inr a" by blast
  from counterpartyLoop_find[OF hasGroup_counterpartyPatterns] obtain cp
    where cp: "counterpartyLoop counterpartyPatterns (subject @ '' '' @ body) = Inr cp" by blast
  show ?thesis using a cp by (simp add: parseTransaction_def Let_def)
qed

section \<open>Lemmas on the category and the fingerprint\<close>

declare toString16.simps [simp del]

lemma categorizeTry_valid:
  "categorizeTry ai cp desc subject = Inr c \<Longrightarrow> c \<in> set VALID_CATEGORIES"
  by (auto simp: categorizeTry_def Let_def VALID_CATEGORIES_def split: aiOutcome.splits option.splits if_splits)

lemma misc_valid: "''miscellaneous-other'' \<in> set VALID_CATEGORIES"
  by (simp add: VALID_CATEGORIES_def)

lemma hexDigit_mem: "n < 16 \<Longrightarrow> hexDigit n \<in> set ''0123456789abcdef''"
proof -
  assume "n < 16"
  then have "n < length ''0123456789abcdef''" by simp
  then show ?thesis unfolding hexDigit_def by (rule nth_mem)
qed

lemma toString16_byte:
  assumes "n < 256"
  shows "length (padStart2 (toString16 n)) = 2"
    and "\<forall>c\<in>set (padStart2 (toString16 n)). c \<in> set ''0123456789abcdef''"
proof -
  have zero: "CHR ''0'' \<in> set ''0123456789abcdef''" by simp
  show "length (padStart2 (toString16 n)) = 2"
  proof (cases "n < 16")
    case True
    then show ?thesis by (simp add: toString16.simps[of n] padStart2_def)
  next
    case False
    with assms have "n div 16 < 16" by simp
    then have "toString16 (n div 16) = [hexDigit (n div 16)]" by (simp add: toString16.simps[of "n div 16"])
    with False show ?thesis by (simp add: toString16.simps[of n] padStart2_def)
  qed
  show "\<forall>c\<in>set (padStart2 (toString16 n)). c \<in> set ''0123456789abcdef''"
  proof (cases "n < 16")
    case True
    then have "toString16 n = [hexDigit n]" by (simp add: toString16.simps[of n])
    with hexDigit_mem[OF True] zero show ?thesis
      by (simp only: padStart2_def set_append set_replicate_conv_if) auto
  next
    case False
    with assms have d: "n div 16 < 16" by simp
    have m: "n mod 16 < 16" by simp
    from d have "toString16 (n div 16) = [hexDigit (n div 16)]" by (simp add: toString16.simps[of "n div 16"])
    with False have "toString16 n = [hexDigit (n div 16), hexDigit (n mod 16)]"
      by (simp add: toString16.simps[of n])
    with hexDigit_mem[OF d] hexDigit_mem[OF m] show ?thesis
      by (simp only: padStart2_def set_append set_replicate_conv_if) auto
  qed
qed

lemma createHash_length: "length (createHash sha256 str) = 2 * length (sha256 (utf8 str))"
proof -
  have "\<And>bs. length (concat (map (\<lambda>b. padStart2 (toString16 (of_char b))) bs)) = 2 * length bs"
  proof -
    fix bs :: "char list"
    show "length (concat (map (\<lambda>b. padStart2 (toString16 (of_char b))) bs)) = 2 * length bs"
      by (induction bs) (simp_all add: toString16_byte(1))
  qed
  then show ?thesis by (simp add: createHash_def)
qed

lemma createHash_hex: "\<forall>c\<in>set (createHash sha256 str). c \<in> set ''0123456789abcdef''"
proof
  fix c assume "c \<in> set (createHash sha256 str)"
  then obtain b where "c \<in> set (padStart2 (toString16 (of_char b)))"
    by (auto simp: createHash_def)
  moreover have "(of_char b :: nat) < 256" by simp
  ultimately show "c \<in> set ''0123456789abcdef''" using toString16_byte(2) by blast
qed

section \<open>Lemmas on the handler\<close>

lemma identifyInstitution_total: "\<exists>r. identifyInstitution from = Inr r"
  using extractEmailAddress_total[of "from"]
  by (auto simp: identifyInstitution_def)

lemma includesStr_sublist: "includesStr s t \<longleftrightarrow> sublist t s"
proof (induction s)
  case Nil
  show ?case by simp
next
  case (Cons x xs)
  have "startsWith (x # xs) t \<longleftrightarrow> prefix t (x # xs)"
    by (metis startsWith_def prefix_def append_take_drop_id append_eq_conv_conj)
  with Cons show ?case by (simp add: sublist_Cons_right)
qed

lemma parseTransaction_legacy_eq:
  "parseTransaction_legacy subject body = parseTransaction AiThrows subject body"
  by (simp add: parseTransaction_legacy_def parseTransaction_def detectTransactionTypeWithAI_def)

lemmas handler_defs = email_def email_legacy_def emailTry_def emailTry_legacy_def afterCatch_def
  sendToBackend_def extractUserId_def userIdPattern_def isIdChar_def isGmailVerification_def
  isFromMercadoPago_legacy_def

lemma includesStr_appendI: "includesStr b k \<Longrightarrow> includesStr (a @ b) k"
  by (simp add: includesStr_sublist sublist_append)

lemma keywordType_range:
  "keywordType sl bl \<in> set VALID_TRANSACTION_TYPES \<or> keywordType sl bl = ''unknown''"
  by (simp add: keywordType_def VALID_TRANSACTION_TYPES_def)

lemma detectTransactionTypeWithAI_valid:
  "detectTransactionTypeWithAI ai = Some t \<Longrightarrow> t \<in> set VALID_TRANSACTION_TYPES"
  by (auto simp: detectTransactionTypeWithAI_def Let_def split: aiOutcome.splits option.splits if_splits)

lemma categorizeWithAI_valid: "categorizeWithAI ai cp desc subject ty \<in> set VALID_CATEGORIES"
proof (cases "categorizeTry ai cp desc subject")
  case (Inl e)
  then show ?thesis by (simp add: categorizeWithAI_def misc_valid)
next
  case (Inr c)
  with categorizeTry_valid[OF Inr] show ?thesis by (simp add: categorizeWithAI_def)
qed

lemma parseTransaction_fields:
  assumes "parseTransaction ai subject body = Inr tx"
  shows "(transaction.type tx \<in> set VALID_TRANSACTION_TYPES \<or> transaction.type tx = ''unknown'')"
    and "currency tx = ''ARS''" and "description tx = None"
proof -
  from assms obtain a cp where
    tx: "tx = \<lparr>type = (case detectTransactionTypeWithAI ai of
                  Some aiType \<Rightarrow> aiType
                | None \<Rightarrow> keywordType (toLowerCase subject) (toLowerCase body)),
              amount = a, currency = ''ARS'', counterparty = cp, description = None,
              referenceId = (case search refPattern (subject @ '' '' @ body) of
                               None \<Rightarrow> None | Some (_, m1) \<Rightarrow> m1)\<rparr>"
    by (auto simp: parseTransaction_def Let_def split: sum.splits)
  show "currency tx = ''ARS''" and "description tx = None" using tx by simp_all
  show "transaction.type tx \<in> set VALID_TRANSACTION_TYPES \<or> transaction.type tx = ''unknown''"
  proof (cases "detectTransactionTypeWithAI ai")
    case None
    with tx keywordType_range[of "toLowerCase subject" "toLowerCase body"] show ?thesis by simp
  next
    case (Some t)
    with tx detectTransactionTypeWithAI_valid[OF Some] show ?thesis by simp
  qed
qed

lemma emailTry_posts:
  "emailTry env message = (posts, e, fwd) \<Longrightarrow> length posts \<le> 1"
  by (auto simp: emailTry_def sendToBackend_def Let_def split: option.splits sum.splits if_splits)

lemma emailTry_transaction:
  assumes "emailTry env message = (posts, e, fwd)" "TransactionRecord u tx h c i s f \<in> set posts"
  shows "extractUserId (msgTo message) = Some u"
    and "identifyInstitution (msgFrom message) = Inr (Some i)"
    and "s = (case extractSubject env (msgRaw message) of None \<Rightarrow> [] | Some x \<Rightarrow> x)"
    and "parseTransaction (typeAnswer env) s (extractEmailBody env (msgRaw message)) = Inr tx"
    and "0 < amount tx"
    and "c = categorizeWithAI (categoryAnswer env) (counterparty tx) (description tx) s (transaction.type tx)"
    and "h = fingerprint (digest env) s (extractEmailBody env (msgRaw message))"
    and "f = msgFrom message"
    and "\<not> isGmailVerification (msgFrom message)"
  using assms
  by (auto simp: emailTry_def sendToBackend_def Let_def split: option.splits sum.splits if_splits)

lemma emailTry_legacy_posts:
  "emailTry_legacy env message = (posts, e, fwd) \<Longrightarrow> length posts \<le> 1"
  by (auto simp: emailTry_legacy_def sendToBackend_def Let_def split: option.splits sum.splits if_splits)

lemma emailTry_legacy_transaction:
  assumes "emailTry_legacy env message = (posts, e, fwd)" "LegacyTransactionRecord u tx h c s f \<in> set posts"
  shows "extractUserId (msgTo message) = Some u"
    and "isFromMercadoPago_legacy (msgFrom message)"
    and "0 < amount tx"
    and "c = (if transaction.type tx \<in> set expenseTypes
              then Some (categorizeWithAI_legacy (categoryAnswer env) (counterparty tx) (description tx) s)
              else None)"
  using assms
  by (auto simp: emailTry_legacy_def sendToBackend_def Let_def split: option.splits sum.splits if_splits)

lemma categorizeWithAI_legacy_eq:
  "categorizeWithAI_legacy ai cp desc subject = categorizeWithAI ai cp desc subject ty"
  by (simp add: categorizeWithAI_legacy_def categorizeWithAI_def)

lemma sent_email:
  "\<exists>posts e fwd. emailTry env message = (posts, e, fwd)
      \<and> (sent (email env message) = posts \<or> sent (email env message) = posts @ [WorkerErrorRecord])"
proof -
  obtain posts e fwd where t: "emailTry env message = (posts, e, fwd)" by (cases "emailTry env message")
  then show ?thesis by (cases e) (simp_all add: email_def afterCatch_def)
qed

lemma sent_email_legacy:
  "\<exists>posts e fwd. emailTry_legacy env message = (posts, e, fwd)
      \<and> (sent (email_legacy env message) = posts \<or> sent (email_legacy env message) = posts @ [WorkerErrorRecord])"
proof -
  obtain posts e fwd where t: "emailTry_legacy env message = (posts, e, fwd)"
    by (cases "emailTry_legacy env message")
  then show ?thesis by (cases e) (simp_all add: email_legacy_def afterCatch_def)
qed

section \<open>Claims on the amount\<close>

text \<open>
  C9. For every input text, \<open>extractAmount\<close> returns, and what it returns is never
  negative: the running maximum starts at 0 and each pass of the loop leaves it where it was
  or raises it. A candidate with no digit in it (\<open>$.\<close>) parses to NaN and counts as 0.
\<close>

theorem extractAmount_never_negative:
  "(\<exists>a. extractAmount t = Inr a \<and> 0 \<le> a)
   \<and> (\<exists>a. execLoop p t maxAmount = Inr a \<and> maxAmount \<le> a)
   \<and> extractAmount ''$.'' = Inr 0"
proof -
  have fin: "finite (insert 0 (parseArgentineAmount ` set (candidates t)))" by simp
  have "0 \<le> Max (insert 0 (parseArgentineAmount ` set (candidates t)))"
    by (rule Max_ge[OF fin]) simp
  then have a: "\<exists>a. extractAmount t = Inr a \<and> 0 \<le> a"
    by (simp add: extractAmount_Max)
  have "maxAmount \<le> Max (insert maxAmount (set (map parseArgentineAmount (matchAll p t))))"
    by (rule Max_ge) simp_all
  then have b: "\<exists>a. execLoop p t maxAmount = Inr a \<and> maxAmount \<le> a"
    by (simp add: execLoop_fold foldl_max_Max)
  have c: "extractAmount ''$.'' = Inr 0"
    by (simp add: amt_defs re_defs cls_defs)
  from a b c show ?thesis by blast
qed

theorem extractAmount_never_negative_witness:
  "extractAmount ''Pagaste $50 de comision y $1.200 en total'' = Inr 1200 \<and> (0::rat) \<le> 1200"
proof -
  have e: "extractAmount ''Pagaste $50 de comision y $1.200 en total'' = Inr 1200"
    by (simp add: amt_defs re_defs cls_defs)
  from extractAmount_never_negative[of "''Pagaste $50 de comision y $1.200 en total''" DollarPattern 0]
  obtain a where "extractAmount ''Pagaste $50 de comision y $1.200 en total'' = Inr a" "0 \<le> a"
    by blast
  with e show ?thesis by simp
qed

text \<open>
  C3. For every input text, \<open>extractAmount\<close> goes through all matches of the two patterns
  (the \<open>$\<close> pattern first, then the \<open>ARS\<close> pattern) and returns the maximum of their
  parsed values, not the first: no candidate parses to more than the result, and when there
  is a candidate the result is the parsed value of one of them. A text with \<open>$50\<close> and
  \<open>$1.200\<close> yields 1200.
\<close>

theorem extractAmount_is_maximum:
  "candidates t = matchAll DollarPattern t @ matchAll ArsPattern t
   \<and> extractAmount t = Inr (Max (insert 0 (parseArgentineAmount ` set (candidates t))))
   \<and> (candidates t \<noteq> [] \<longrightarrow>
        extractAmount t = Inr (Max (parseArgentineAmount ` set (candidates t))))
   \<and> candidates ''Pagaste $50 de comision y $1.200 en total'' = [''50'', ''1.200'']
   \<and> extractAmount ''Pagaste $50 de comision y $1.200 en total'' = Inr 1200"
proof -
  have scan: "candidates t = matchAll DollarPattern t @ matchAll ArsPattern t"
    by (simp add: candidates_def patterns_def)
  have all: "extractAmount t = Inr (Max (insert 0 (parseArgentineAmount ` set (candidates t))))"
    by (rule extractAmount_Max)
  have some: "candidates t \<noteq> [] \<longrightarrow>
      extractAmount t = Inr (Max (parseArgentineAmount ` set (candidates t)))"
    using extractAmount_Max_nonempty by blast
  have ex1: "candidates ''Pagaste $50 de comision y $1.200 en total'' = [''50'', ''1.200'']"
    by (simp add: candidates_def matchAll.simps amt_defs re_defs cls_defs)
  have ex2: "extractAmount ''Pagaste $50 de comision y $1.200 en total'' = Inr 1200"
    by (simp add: amt_defs re_defs cls_defs)
  from scan all some ex1 ex2 show ?thesis by blast
qed

theorem extractAmount_is_maximum_witness:
  "candidates ''$50 ARS 70,10 $1.200'' = [''50'', ''1.200'', ''70,10'']
   \<and> extractAmount ''$50 ARS 70,10 $1.200'' = Inr (Max (parseArgentineAmount ` {''50'', ''1.200'', ''70,10''}))
   \<and> extractAmount ''$50 ARS 70,10 $1.200'' = Inr 1200"
proof -
  have c: "candidates ''$50 ARS 70,10 $1.200'' = [''50'', ''1.200'', ''70,10'']"
    by (simp add: candidates_def matchAll.simps amt_defs re_defs cls_defs)
  then have ne: "candidates ''$50 ARS 70,10 $1.200'' \<noteq> []" by simp
  have e: "extractAmount ''$50 ARS 70,10 $1.200'' = Inr 1200"
    by (simp add: amt_defs re_defs cls_defs)
  from extractAmount_is_maximum[of "''$50 ARS 70,10 $1.200''"] ne
  have "extractAmount ''$50 ARS 70,10 $1.200''
      = Inr (Max (parseArgentineAmount ` set (candidates ''$50 ARS 70,10 $1.200'')))" by blast
  with c e show ?thesis by simp
qed

text \<open>
  C4. Every matched numeric string is parsed by the locale rule: a trailing comma with two
  digits is the decimal separator and the dots before it are dropped; otherwise all dots are
  dropped and the value is a whole number. \<open>$1.500,50\<close> gives 1500.50, \<open>$1.500\<close>
  gives 1500 and \<open>ARS 2.000,00\<close> gives 2000.00.
\<close>

theorem parseArgentineAmount_locale_rule:
  "(\<forall>m\<in>set (candidates t). numericMatch m \<and> parseArgentineAmount m = localeValue m)
   \<and> (numericMatch m \<longrightarrow> parseArgentineAmount m = localeValue m)
   \<and> (numericMatch m \<and> \<not> hasDecimalPart m \<longrightarrow> parseArgentineAmount m \<in> \<nat>)
   \<and> extractAmount ''$1.500,50'' = Inr 1500.50
   \<and> extractAmount ''$1.500'' = Inr 1500
   \<and> extractAmount ''ARS 2.000,00'' = Inr 2000.00"
proof -
  have a: "\<forall>m\<in>set (candidates t). numericMatch m \<and> parseArgentineAmount m = localeValue m"
    using candidate_numericMatch parseArgentineAmount_localeValue by blast
  have b: "numericMatch m \<longrightarrow> parseArgentineAmount m = localeValue m"
    using parseArgentineAmount_localeValue by blast
  have c: "numericMatch m \<and> \<not> hasDecimalPart m \<longrightarrow> parseArgentineAmount m \<in> \<nat>"
  proof
    assume h: "numericMatch m \<and> \<not> hasDecimalPart m"
    then have "parseArgentineAmount m = digitsVal (withoutDots m)"
      using parseArgentineAmount_localeValue by (simp add: localeValue_def)
    then show "parseArgentineAmount m \<in> \<nat>" by (simp add: digitsVal_def)
  qed
  have e1: "extractAmount ''$1.500,50'' = Inr 1500.50"
    by (simp add: amt_defs re_defs cls_defs)
  have e2: "extractAmount ''$1.500'' = Inr 1500"
    by (simp add: amt_defs re_defs cls_defs)
  have e3: "extractAmount ''ARS 2.000,00'' = Inr 2000.00"
    by (simp add: amt_defs re_defs cls_defs)
  from a b c e1 e2 e3 show ?thesis by blast
qed

theorem parseArgentineAmount_locale_rule_witness:
  "numericMatch ''1.500,50'' \<and> hasDecimalPart ''1.500,50''
   \<and> localeValue ''1.500,50'' = 1500.50 \<and> parseArgentineAmount ''1.500,50'' = 1500.50
   \<and> numericMatch ''2.000'' \<and> \<not> hasDecimalPart ''2.000'' \<and> parseArgentineAmount ''2.000'' \<in> \<nat>"
proof -
  have n1: "numericMatch ''1.500,50''" and n2: "numericMatch ''2.000''"
    by (simp_all add: numericMatch_def cls_defs)
  have h1: "hasDecimalPart ''1.500,50''" and h2: "\<not> hasDecimalPart ''2.000''"
    by (simp_all add: hasDecimalPart_def cls_defs)
  have l: "localeValue ''1.500,50'' = 1500.50"
    by (simp add: localeValue_def hasDecimalPart_def withoutDots_def digitsVal_def digitVal_def cls_defs)
  from parseArgentineAmount_locale_rule[of "[]" "''1.500,50''"] n1 l
  have p1: "parseArgentineAmount ''1.500,50'' = 1500.50" by simp
  from parseArgentineAmount_locale_rule[of "[]" "''2.000''"] n2 h2
  have p2: "parseArgentineAmount ''2.000'' \<in> \<nat>" by blast
  from n1 n2 h1 h2 l p1 p2 show ?thesis by blast
qed

section \<open>Claims on the sender\<close>

text \<open>
  C2 fails on the single-institution worker. Its \<open>isFromMercadoPago\<close>, documented as
  accepting the two official addresses only, accepts every from-address that contains one
  of them anywhere: an address with a registered address in its middle matches. The function
  of the same name in the multi-institution worker asks \<open>identifyInstitution\<close> and
  rejects that address.
\<close>

theorem isFromMercadoPago_legacy_contains:
  "(isFromMercadoPago_legacy from \<longleftrightarrow>
      from \<noteq> [] \<and> (sublist ''info@mercadopago.com'' (toLowerCase from)
                     \<or> sublist ''info@mercadopago.com.ar'' (toLowerCase from)))
   \<and> isFromMercadoPago_legacy ''info@mercadopago.com.evil.net''
   \<and> isFromMercadoPago_legacy ''xinfo@mercadopago.com''
   \<and> isFromMercadoPago ''info@mercadopago.com.evil.net'' = Inr False
   \<and> isFromMercadoPago ''xinfo@mercadopago.com'' = Inr False"
proof -
  have a: "isFromMercadoPago_legacy from \<longleftrightarrow>
      from \<noteq> [] \<and> (sublist ''info@mercadopago.com'' (toLowerCase from)
                     \<or> sublist ''info@mercadopago.com.ar'' (toLowerCase from))"
    by (simp add: isFromMercadoPago_legacy_def includesStr_sublist)
  have b: "isFromMercadoPago_legacy ''info@mercadopago.com.evil.net''"
    by (simp add: isFromMercadoPago_legacy_def startsWith_def toLowerCase_def cls_defs)
  have c: "isFromMercadoPago_legacy ''xinfo@mercadopago.com''"
    by (simp add: isFromMercadoPago_legacy_def startsWith_def toLowerCase_def cls_defs)
  have d: "isFromMercadoPago ''info@mercadopago.com.evil.net'' = Inr False"
    by (simp add: isFromMercadoPago_def inst_defs re_defs cls_defs)
  have e: "isFromMercadoPago ''xinfo@mercadopago.com'' = Inr False"
    by (simp add: isFromMercadoPago_def inst_defs re_defs cls_defs)
  from a b c d e show ?thesis by blast
qed

text \<open>
  X1. In the multi-institution worker the sender rule is exact. For every from-address the
  bare lower-cased address is found, and \<open>identifyInstitution\<close> finds an institution
  exactly when some registry entry matches it in this sense: an entry with a leading
  \<open>@\<close> must be the exact tail of the address, any other entry must be the whole address.
  So a registry entry that is not the tail of the address never matches: an address that
  only contains \<open>info@mercadopago.com\<close> or \<open>@uala.com.ar\<close> in its middle is unknown.
\<close>

theorem identifyInstitution_exact_matching:
  "(\<exists>addr r. extractEmailAddress from = Inr addr \<and> identifyInstitution from = Inr r
       \<and> (r \<noteq> None \<longleftrightarrow> addr \<noteq> [] \<and> (\<exists>entry\<in>set registryEntries. entryMatches entry addr))
       \<and> ((\<forall>entry\<in>set registryEntries. \<not> suffix entry addr) \<longrightarrow> r = None))
   \<and> domainMatches addr' entry' = entryMatches entry' addr'
   \<and> identifyInstitution ''xinfo@mercadopago.com'' = Inr None
   \<and> identifyInstitution ''info@mercadopago.com.evil.net'' = Inr None
   \<and> identifyInstitution ''Aviso <alguien@uala.com.ar.evil.net>'' = Inr None"
proof -
  from extractEmailAddress_total obtain addr where e: "extractEmailAddress from = Inr addr"
    by blast
  define r where "r = (if addr = [] then None else identifyIn FINANCIAL_INSTITUTIONS addr)"
  have i: "identifyInstitution from = Inr r"
    using e by (simp add: identifyInstitution_def r_def)
  have c: "r \<noteq> None \<longleftrightarrow> addr \<noteq> [] \<and> (\<exists>entry\<in>set registryEntries. entryMatches entry addr)"
    using identifyIn_registryEntries[of addr] by (auto simp: r_def)
  have "\<forall>entry\<in>set registryEntries. \<not> suffix entry addr \<Longrightarrow> r = None"
    using c entryMatches_suffix by blast
  with e i c have a: "\<exists>addr r. extractEmailAddress from = Inr addr \<and> identifyInstitution from = Inr r
       \<and> (r \<noteq> None \<longleftrightarrow> addr \<noteq> [] \<and> (\<exists>entry\<in>set registryEntries. entryMatches entry addr))
       \<and> ((\<forall>entry\<in>set registryEntries. \<not> suffix entry addr) \<longrightarrow> r = None)"
    by blast
  have b: "domainMatches addr' entry' = entryMatches entry' addr'"
    by (rule domainMatches_entryMatches)
  have x1: "identifyInstitution ''xinfo@mercadopago.com'' = Inr None"
    by (simp add: inst_defs re_defs cls_defs)
  have x2: "identifyInstitution ''info@mercadopago.com.evil.net'' = Inr None"
    by (simp add: inst_defs re_defs cls_defs)
  have x3: "identifyInstitution ''Aviso <alguien@uala.com.ar.evil.net>'' = Inr None"
    by (simp add: inst_defs re_defs cls_defs)
  from a b x1 x2 x3 show ?thesis by blast
qed

theorem identifyInstitution_exact_matching_witness:
  "extractEmailAddress ''Mercado Pago <INFO@MercadoPago.com>'' = Inr ''info@mercadopago.com''
   \<and> ''info@mercadopago.com'' \<in> set registryEntries
   \<and> entryMatches ''info@mercadopago.com'' ''info@mercadopago.com''
   \<and> identifyInstitution ''Mercado Pago <INFO@MercadoPago.com>'' \<noteq> Inr None"
proof -
  have e: "extractEmailAddress ''Mercado Pago <INFO@MercadoPago.com>'' = Inr ''info@mercadopago.com''"
    by (simp add: inst_defs re_defs cls_defs)
  have m: "''info@mercadopago.com'' \<in> set registryEntries"
    by (simp add: registryEntries_def FINANCIAL_INSTITUTIONS_def)
  have k: "entryMatches ''info@mercadopago.com'' ''info@mercadopago.com''"
    by (simp add: entryMatches_def)
  from identifyInstitution_exact_matching[of "''Mercado Pago <INFO@MercadoPago.com>''" "[]" "[]"] e
  obtain r where r: "identifyInstitution ''Mercado Pago <INFO@MercadoPago.com>'' = Inr r"
    "r \<noteq> None \<longleftrightarrow> ''info@mercadopago.com'' \<noteq> [] \<and>
       (\<exists>entry\<in>set registryEntries. entryMatches entry ''info@mercadopago.com'')"
    by auto
  from r(2) m k have "r \<noteq> None" by blast
  with r(1) have "identifyInstitution ''Mercado Pago <INFO@MercadoPago.com>'' \<noteq> Inr None" by simp
  with e m k show ?thesis by blast
qed

section \<open>Claims on the intent\<close>




section \<open>Claims on the transaction\<close>

text \<open>
  C6. When the type classifier fails (the call throws, or its answer is missing) or answers
  with something outside the eight transaction types, the type is decided by the keyword
  rules on the lower-cased subject (and, for two groups, the lower-cased body): the four
  money-in groups stand before the four money-out groups, the first group with a keyword
  present decides (so the type is not \<open>unknown\<close> then), and with no keyword present
  the type is \<open>unknown\<close>.
  \<open>parseTransaction\<close> returns a transaction whatever the classifier does. The
  single-institution worker has no type classifier: its \<open>parseTransaction\<close> is the keyword
  rules alone, which is \<open>parseTransaction\<close> with a classifier that fails.
\<close>

theorem parseTransaction_type_fallback:
  "detectTransactionTypeWithAI AiThrows = None
   \<and> detectTransactionTypeWithAI (AiResponse None) = None
   \<and> (cleanType x \<notin> set VALID_TRANSACTION_TYPES \<longrightarrow>
        detectTransactionTypeWithAI (AiResponse (Some x)) = None)
   \<and> (detectTransactionTypeWithAI ai = None \<longrightarrow>
        (\<exists>tx. parseTransaction ai subject body = Inr tx
           \<and> transaction.type tx = rulesType (toLowerCase subject) (toLowerCase body)))
   \<and> ((\<forall>rule\<in>set typeRules. \<not> ruleApplies (toLowerCase subject) (toLowerCase body) rule) \<longrightarrow>
        rulesType (toLowerCase subject) (toLowerCase body) = ''unknown'')
   \<and> map (\<lambda>(sk, bk, ty). ty) typeRules = moneyInTypes @ moneyOutTypes
   \<and> (\<forall>rule. find (ruleApplies (toLowerCase subject) (toLowerCase body)) typeRules = Some rule \<longrightarrow>
          rulesType (toLowerCase subject) (toLowerCase body) = snd (snd rule)
          \<and> snd (snd rule) \<noteq> ''unknown'')
   \<and> (\<exists>tx. parseTransaction ai subject body = Inr tx)
   \<and> parseTransaction_legacy subject body = parseTransaction AiThrows subject body"
proof -
  have 1: "detectTransactionTypeWithAI AiThrows = None"
    and 2: "detectTransactionTypeWithAI (AiResponse None) = None"
    by (simp_all add: detectTransactionTypeWithAI_def)
  have 3: "cleanType x \<notin> set VALID_TRANSACTION_TYPES \<longrightarrow>
      detectTransactionTypeWithAI (AiResponse (Some x)) = None"
    by (simp add: detectTransactionTypeWithAI_def cleanType_def Let_def)
  have 4: "detectTransactionTypeWithAI ai = None \<longrightarrow>
      (\<exists>tx. parseTransaction ai subject body = Inr tx
         \<and> transaction.type tx = rulesType (toLowerCase subject) (toLowerCase body))"
  proof
    assume n: "detectTransactionTypeWithAI ai = None"
    from parseTransaction_total[of ai subject body] obtain tx
      where "parseTransaction ai subject body = Inr tx"
        "transaction.type tx = (case detectTransactionTypeWithAI ai of
            Some aiType \<Rightarrow> aiType | None \<Rightarrow> keywordType (toLowerCase subject) (toLowerCase body))"
      by blast
    with n show "\<exists>tx. parseTransaction ai subject body = Inr tx
         \<and> transaction.type tx = rulesType (toLowerCase subject) (toLowerCase body)"
      by (simp add: keywordType_rulesType)
  qed
  have 5: "(\<forall>rule\<in>set typeRules. \<not> ruleApplies (toLowerCase subject) (toLowerCase body) rule) \<longrightarrow>
      rulesType (toLowerCase subject) (toLowerCase body) = ''unknown''"
    using rulesType_unknown by blast
  have 6: "map (\<lambda>(sk, bk, ty). ty) typeRules = moneyInTypes @ moneyOutTypes"
    by (simp add: typeRules_def moneyInTypes_def moneyOutTypes_def)
  have 7: "\<exists>tx. parseTransaction ai subject body = Inr tx"
    using parseTransaction_total[of ai subject body] by blast
  have 8: "parseTransaction_legacy subject body = parseTransaction AiThrows subject body"
    by (rule parseTransaction_legacy_eq)
  have 9: "\<forall>rule. find (ruleApplies (toLowerCase subject) (toLowerCase body)) typeRules = Some rule \<longrightarrow>
          rulesType (toLowerCase subject) (toLowerCase body) = snd (snd rule)
          \<and> snd (snd rule) \<noteq> ''unknown''"
  proof (intro allI impI)
    fix rule
    assume f: "find (ruleApplies (toLowerCase subject) (toLowerCase body)) typeRules = Some rule"
    then have r: "rulesType (toLowerCase subject) (toLowerCase body) = snd (snd rule)"
      by (simp add: rulesType_def split: prod.splits)
    from f have "rule \<in> set typeRules" by (auto simp: find_Some_iff)
    moreover have "\<forall>x\<in>set typeRules. snd (snd x) \<noteq> ''unknown''" by (simp add: typeRules_def)
    ultimately have "snd (snd rule) \<noteq> ''unknown''" by blast
    with r show "rulesType (toLowerCase subject) (toLowerCase body) = snd (snd rule)
          \<and> snd (snd rule) \<noteq> ''unknown''" by blast
  qed
  from 1 2 3 4 5 6 7 8 9 show ?thesis by blast
qed

theorem parseTransaction_type_fallback_witness:
  "cleanType ''I think: Transfer!'' = ''ithinktransfer''
   \<and> detectTransactionTypeWithAI (AiResponse (Some ''I think: Transfer!'')) = None
   \<and> rulesType (toLowerCase ''Recibiste una transferencia'') (toLowerCase ''Te enviaron $2.500'')
       = ''transfer_received''
   \<and> (\<exists>tx. parseTransaction (AiResponse (Some ''I think: Transfer!''))
              ''Recibiste una transferencia'' ''Te enviaron $2.500'' = Inr tx
            \<and> transaction.type tx = ''transfer_received'')"
proof -
  have c: "cleanType ''I think: Transfer!'' = ''ithinktransfer''"
    by (simp add: cleanType_def removeAll_def toLowerCase_def trim_def cls_defs)
  then have nv: "cleanType ''I think: Transfer!'' \<notin> set VALID_TRANSACTION_TYPES"
    by (simp add: VALID_TRANSACTION_TYPES_def)
  have r: "rulesType (toLowerCase ''Recibiste una transferencia'') (toLowerCase ''Te enviaron $2.500'')
       = ''transfer_received''"
    by (simp add: rulesType_def typeRules_def ruleApplies_def toLowerCase_def startsWith_def cls_defs)
  note t = parseTransaction_type_fallback[of "''I think: Transfer!''" "AiResponse (Some ''I think: Transfer!'')"
      "''Recibiste una transferencia''" "''Te enviaron $2.500''"]
  from t nv have d: "detectTransactionTypeWithAI (AiResponse (Some ''I think: Transfer!'')) = None"
    by blast
  with t r have "\<exists>tx. parseTransaction (AiResponse (Some ''I think: Transfer!''))
              ''Recibiste una transferencia'' ''Te enviaron $2.500'' = Inr tx
            \<and> transaction.type tx = ''transfer_received''"
    by simp
  with c d r show ?thesis by blast
qed

text \<open>
  C8. The counterparty is found by going through the pattern list in the order it is
  declared: the first pattern whose first match has a group 1 that, trimmed, is longer than
  one character gives the counterparty, which is that trimmed capture; when no pattern
  qualifies there is none. What is returned has no white space at either end and holds
  letters, digits and inner spaces only: the markers and the punctuation that end a name in
  the text (\<open>*\<close>, \<open>$\<close>, \<open>.\<close>, \<open>:\<close>) stay outside the capture group.
\<close>

theorem counterparty_first_qualifying:
  "counterpartyLoop counterpartyPatterns t =
     Inr (case find (qualifies t) counterpartyPatterns of
            None \<Rightarrow> None
          | Some p \<Rightarrow> trimmedCapture p t)
   \<and> (\<forall>c. counterpartyLoop counterpartyPatterns t = Inr (Some c) \<longrightarrow>
          1 < length c \<and> \<not> isSpace (hd c) \<and> \<not> isSpace (last c)
          \<and> (\<forall>x\<in>set c. isLetterDigitSpace x \<and> \<not> isPunct x))
   \<and> (\<exists>tx. parseTransaction ai subject body = Inr tx
          \<and> Inr (counterparty tx) = counterpartyLoop counterpartyPatterns (subject @ '' '' @ body))
   \<and> counterpartyLoop counterpartyPatterns ''Receptor: Ana Paz. Chau'' = Inr (Some ''Paz'')"
proof -
  have a: "counterpartyLoop counterpartyPatterns t =
     Inr (case find (qualifies t) counterpartyPatterns of
            None \<Rightarrow> None
          | Some p \<Rightarrow> trimmedCapture p t)"
    by (rule counterpartyLoop_find[OF hasGroup_counterpartyPatterns])
  have b: "\<forall>c. counterpartyLoop counterpartyPatterns t = Inr (Some c) \<longrightarrow>
          1 < length c \<and> \<not> isSpace (hd c) \<and> \<not> isSpace (last c)
          \<and> (\<forall>x\<in>set c. isLetterDigitSpace x \<and> \<not> isPunct x)"
  proof (intro allI impI)
    fix c
    assume "counterpartyLoop counterpartyPatterns t = Inr (Some c)"
    with a obtain p where f: "find (qualifies t) counterpartyPatterns = Some p"
      and tc: "trimmedCapture p t = Some c"
      by (auto split: option.splits)
    from f have p: "p \<in> set counterpartyPatterns" and q: "qualifies t p"
      by (auto simp: find_Some_iff)
    from q tc have len: "1 < length c" by (simp add: qualifies_def)
    from trimmedCapture_trim[OF tc] obtain m1 where m1: "c = trim m1" by blast
    with len have "trim m1 \<noteq> []" by auto
    from trim_ends[OF this] m1 have ends: "\<not> isSpace (hd c) \<and> \<not> isSpace (last c)" by simp
    from p groupAlphabet_counterpartyPatterns have "groupAlphabet isLetterDigitSpace p" by blast
    from trimmedCapture_chars[OF tc this] have "\<forall>x\<in>set c. isLetterDigitSpace x" .
    then have "\<forall>x\<in>set c. isLetterDigitSpace x \<and> \<not> isPunct x"
      using letter_not_punct by blast
    with len ends show "1 < length c \<and> \<not> isSpace (hd c) \<and> \<not> isSpace (last c)
          \<and> (\<forall>x\<in>set c. isLetterDigitSpace x \<and> \<not> isPunct x)" by blast
  qed
  have c: "\<exists>tx. parseTransaction ai subject body = Inr tx
          \<and> Inr (counterparty tx) = counterpartyLoop counterpartyPatterns (subject @ '' '' @ body)"
    using parseTransaction_total[of ai subject body] by blast
  have d: "counterpartyLoop counterpartyPatterns ''Receptor: Ana Paz. Chau'' = Inr (Some ''Paz'')"
    by (simp add: tx_defs trim_def re_defs cls_defs)
  from a b c d show ?thesis by blast
qed

theorem counterparty_first_qualifying_witness:
  "counterpartyLoop counterpartyPatterns ''Pagaste en Kiosco 24!'' = Inr (Some ''Kiosco 24'')
   \<and> 1 < length ''Kiosco 24'' \<and> \<not> isPunct (last ''Kiosco 24'')"
proof -
  have e: "counterpartyLoop counterpartyPatterns ''Pagaste en Kiosco 24!'' = Inr (Some ''Kiosco 24'')"
    by (simp add: tx_defs trim_def re_defs cls_defs)
  from counterparty_first_qualifying[of "''Pagaste en Kiosco 24!''" AiThrows "[]" "[]"] e
  have "1 < length ''Kiosco 24'' \<and> (\<forall>x\<in>set ''Kiosco 24''. isLetterDigitSpace x \<and> \<not> isPunct x)"
    by blast
  then have "1 < length ''Kiosco 24'' \<and> \<not> isPunct (last ''Kiosco 24'')" by simp
  with e show ?thesis by blast
qed

section \<open>Claims on the category and the fingerprint\<close>



text \<open>
  C7. The fingerprint is the hex form of the digest of the subject followed by the first 200
  characters of the body, and of nothing else: two bodies that agree on their first 200
  characters give the same fingerprint for every subject. With a digest of 32 bytes, as
  SHA-256 gives, it is a string of 64 hex digits.
\<close>

theorem fingerprint_depends_on_prefix:
  "(take 200 b1 = take 200 b2 \<longrightarrow> fingerprint sha256 s b1 = fingerprint sha256 s b2)
   \<and> fingerprint sha256 s b = createHash sha256 (s @ take 200 b)
   \<and> ((\<forall>d. length (sha256 d) = 32) \<longrightarrow>
        length (fingerprint sha256 s b) = 64
        \<and> (\<forall>c\<in>set (fingerprint sha256 s b). c \<in> set ''0123456789abcdef''))"
proof -
  have 1: "take 200 b1 = take 200 b2 \<longrightarrow> fingerprint sha256 s b1 = fingerprint sha256 s b2"
    by (simp add: fingerprint_def substring0_def)
  have 2: "fingerprint sha256 s b = createHash sha256 (s @ take 200 b)"
    by (simp add: fingerprint_def substring0_def)
  have 3: "(\<forall>d. length (sha256 d) = 32) \<longrightarrow>
        length (fingerprint sha256 s b) = 64
        \<and> (\<forall>c\<in>set (fingerprint sha256 s b). c \<in> set ''0123456789abcdef'')"
  proof
    assume "\<forall>d. length (sha256 d) = 32"
    then have "length (fingerprint sha256 s b) = 64"
      by (simp add: fingerprint_def createHash_length)
    moreover have "\<forall>c\<in>set (fingerprint sha256 s b). c \<in> set ''0123456789abcdef''"
      unfolding fingerprint_def by (rule createHash_hex)
    ultimately show "length (fingerprint sha256 s b) = 64
        \<and> (\<forall>c\<in>set (fingerprint sha256 s b). c \<in> set ''0123456789abcdef'')" by blast
  qed
  from 1 2 3 show ?thesis by blast
qed

theorem fingerprint_depends_on_prefix_witness:
  "take 200 (replicate 200 (CHR ''x'') @ ''A'') = take 200 (replicate 200 (CHR ''x'') @ ''B'')
   \<and> fingerprint (\<lambda>d. take 32 (d @ replicate 32 (CHR 0xAB))) ''Aviso'' (replicate 200 (CHR ''x'') @ ''A'')
       = fingerprint (\<lambda>d. take 32 (d @ replicate 32 (CHR 0xAB))) ''Aviso'' (replicate 200 (CHR ''x'') @ ''B'')
   \<and> length (fingerprint (\<lambda>d. take 32 (d @ replicate 32 (CHR 0xAB))) ''Aviso'' ''Te enviaron'') = 64"
proof -
  let ?h = "\<lambda>d::char list. take 32 (d @ replicate 32 (CHR 0xAB))"
  have t: "take 200 (replicate 200 (CHR ''x'') @ ''A'') = take 200 (replicate 200 (CHR ''x'') @ ''B'')"
    by simp
  have l: "\<forall>d. length (?h d) = 32" by (simp add: min_def)
  from fingerprint_depends_on_prefix[of "replicate 200 (CHR ''x'') @ ''A''" "replicate 200 (CHR ''x'') @ ''B''" ?h "''Aviso''" "''Te enviaron''"] t
  have e: "fingerprint ?h ''Aviso'' (replicate 200 (CHR ''x'') @ ''A'')
       = fingerprint ?h ''Aviso'' (replicate 200 (CHR ''x'') @ ''B'')" by blast
  from fingerprint_depends_on_prefix[of "[]" "[]" ?h "''Aviso''" "''Te enviaron''"] l
  have n: "length (fingerprint ?h ''Aviso'' ''Te enviaron'') = 64" by blast
  from t e n show ?thesis by blast
qed

section \<open>Claims on the handler\<close>

text \<open>
  C1, as the code has it. In the multi-institution worker a message whose sender matches no
  institution of the registry makes no call of \<open>sendToBackend\<close>; when the sender is not a
  forwarding-verification address of Gmail either, the handler emits nothing at all, neither
  a record nor a forwarding post (silent drop). A verification sender with a valid recipient is diverted before the
  institution is looked up: both workers post the message to \<open>/forward-verification\<close>
  and make no call of \<open>sendToBackend\<close>; \<open>noreply@google.com\<close> is such a sender and
  matches no institution. The single-institution worker does not drop the other senders it
  does not accept: when the recipient is valid and the sender is neither a verification
  address nor accepted by \<open>isFromMercadoPago\<close>, it posts a record with reason
  \<open>not_mercadopago\<close> (and a second one with reason \<open>worker_error\<close> if the backend
  refuses the first).
\<close>

theorem email_unknown_sender:
  "(identifyInstitution (msgFrom message) = Inr None \<longrightarrow> sent (email env message) = [])
   \<and> (identifyInstitution (msgFrom message) = Inr None \<and> \<not> isGmailVerification (msgFrom message) \<longrightarrow>
        sent (email env message) = [] \<and> \<not> forwarded (email env message))
   \<and> (extractUserId (msgTo message) = Some userId \<and> isGmailVerification (msgFrom message) \<longrightarrow>
        sent (email env message) = [] \<and> forwarded (email env message)
        \<and> sent (email_legacy env message) = [] \<and> forwarded (email_legacy env message))
   \<and> isGmailVerification ''noreply@google.com''
   \<and> identifyInstitution ''noreply@google.com'' = Inr None
   \<and> (extractUserId (msgTo message) = Some userId \<and> \<not> isGmailVerification (msgFrom message)
        \<and> \<not> isFromMercadoPago_legacy (msgFrom message) \<longrightarrow>
        sent (email_legacy env message) =
          NotMercadoPagoRecord userId (msgFrom message)
              (case extractSubject env (msgRaw message) of None \<Rightarrow> [] | Some s \<Rightarrow> s)
          # (if backendOk env (NotMercadoPagoRecord userId (msgFrom message)
                 (case extractSubject env (msgRaw message) of None \<Rightarrow> [] | Some s \<Rightarrow> s))
             then [] else [WorkerErrorRecord])
        \<and> \<not> forwarded (email_legacy env message))"
proof -
  have a: "identifyInstitution (msgFrom message) = Inr None \<longrightarrow> sent (email env message) = []"
    by (simp add: email_def emailTry_def afterCatch_def Let_def split: option.splits)
  have a': "identifyInstitution (msgFrom message) = Inr None \<and> \<not> isGmailVerification (msgFrom message) \<longrightarrow>
        sent (email env message) = [] \<and> \<not> forwarded (email env message)"
    by (simp add: email_def emailTry_def afterCatch_def Let_def split: option.splits)
  have v: "extractUserId (msgTo message) = Some userId \<and> isGmailVerification (msgFrom message) \<longrightarrow>
        sent (email env message) = [] \<and> forwarded (email env message)
        \<and> sent (email_legacy env message) = [] \<and> forwarded (email_legacy env message)"
    by (simp add: email_def email_legacy_def emailTry_def emailTry_legacy_def afterCatch_def Let_def)
  have g: "isGmailVerification ''noreply@google.com''"
    by (simp add: isGmailVerification_def startsWith_def)
  have n: "identifyInstitution ''noreply@google.com'' = Inr None"
    by (simp add: inst_defs re_defs cls_defs)
  have b: "extractUserId (msgTo message) = Some userId \<and> \<not> isGmailVerification (msgFrom message)
        \<and> \<not> isFromMercadoPago_legacy (msgFrom message) \<longrightarrow>
        sent (email_legacy env message) =
          NotMercadoPagoRecord userId (msgFrom message)
              (case extractSubject env (msgRaw message) of None \<Rightarrow> [] | Some s \<Rightarrow> s)
          # (if backendOk env (NotMercadoPagoRecord userId (msgFrom message)
                 (case extractSubject env (msgRaw message) of None \<Rightarrow> [] | Some s \<Rightarrow> s))
             then [] else [WorkerErrorRecord])
        \<and> \<not> forwarded (email_legacy env message)"
    by (simp add: email_legacy_def emailTry_legacy_def afterCatch_def sendToBackend_def Let_def)
  from a a' v g n b show ?thesis by blast
qed

theorem email_unknown_sender_witness:
  "identifyInstitution (msgFrom exampleMessage) = Inr None
   \<and> \<not> isGmailVerification (msgFrom exampleMessage)
   \<and> sent (email exampleEnv exampleMessage) = [] \<and> \<not> forwarded (email exampleEnv exampleMessage)
   \<and> extractUserId (msgTo exampleMessage) = Some ''7''
   \<and> sent (email_legacy exampleEnv exampleMessage) = [NotMercadoPagoRecord ''7'' ''unknown@random.com'' []]
   \<and> identifyInstitution (msgFrom verificationMessage) = Inr None
   \<and> sent (email exampleEnv verificationMessage) = [] \<and> forwarded (email exampleEnv verificationMessage)
   \<and> sent (email_legacy exampleEnv verificationMessage) = []
   \<and> forwarded (email_legacy exampleEnv verificationMessage)"
proof -
  have i: "identifyInstitution (msgFrom exampleMessage) = Inr None"
    by (simp add: exampleMessage_def inst_defs re_defs cls_defs)
  have u: "extractUserId (msgTo exampleMessage) = Some ''7''"
    by (simp add: exampleMessage_def handler_defs toLowerCase_def re_defs cls_defs)
  have g: "\<not> isGmailVerification (msgFrom exampleMessage)"
    by (simp add: exampleMessage_def isGmailVerification_def startsWith_def)
  have m: "\<not> isFromMercadoPago_legacy (msgFrom exampleMessage)"
    by (simp add: exampleMessage_def isFromMercadoPago_legacy_def startsWith_def toLowerCase_def cls_defs)
  have vf: "msgFrom verificationMessage = ''noreply@google.com''"
    by (simp add: verificationMessage_def)
  have vu: "extractUserId (msgTo verificationMessage) = Some ''7''"
    by (simp add: verificationMessage_def handler_defs toLowerCase_def re_defs cls_defs)
  note t = email_unknown_sender[of exampleMessage exampleEnv "''7''"]
  from t i g have 1: "sent (email exampleEnv exampleMessage) = [] \<and> \<not> forwarded (email exampleEnv exampleMessage)"
    by blast
  from t u g m have "sent (email_legacy exampleEnv exampleMessage) =
          NotMercadoPagoRecord ''7'' (msgFrom exampleMessage)
              (case extractSubject exampleEnv (msgRaw exampleMessage) of None \<Rightarrow> [] | Some s \<Rightarrow> s)
          # (if backendOk exampleEnv (NotMercadoPagoRecord ''7'' (msgFrom exampleMessage)
                 (case extractSubject exampleEnv (msgRaw exampleMessage) of None \<Rightarrow> [] | Some s \<Rightarrow> s))
             then [] else [WorkerErrorRecord])" by blast
  then have 2: "sent (email_legacy exampleEnv exampleMessage) = [NotMercadoPagoRecord ''7'' ''unknown@random.com'' []]"
    by (simp add: exampleEnv_def exampleMessage_def)
  note t' = email_unknown_sender[of verificationMessage exampleEnv "''7''"]
  from t' have vg: "isGmailVerification (msgFrom verificationMessage)"
    and vi: "identifyInstitution (msgFrom verificationMessage) = Inr None"
    by (simp_all only: vf)
  from t' vu vg have 3: "sent (email exampleEnv verificationMessage) = [] \<and> forwarded (email exampleEnv verificationMessage)
        \<and> sent (email_legacy exampleEnv verificationMessage) = []
        \<and> forwarded (email_legacy exampleEnv verificationMessage)" by blast
  from i g 1 u 2 vi 3 show ?thesis by blast
qed

text \<open>
  C1 as stated fails twice. On the single-institution worker the sender of the example
  message matches no institution, and its handler calls \<open>sendToBackend\<close>. On the
  multi-institution worker the sender of the verification message matches no institution,
  and its handler posts the message to \<open>/forward-verification\<close>.
\<close>

theorem email_legacy_reports_unknown_sender_counterexample:
  "identifyInstitution (msgFrom exampleMessage) = Inr None
   \<and> sent (email_legacy exampleEnv exampleMessage) \<noteq> []
   \<and> identifyInstitution (msgFrom verificationMessage) = Inr None
   \<and> forwarded (email exampleEnv verificationMessage)"
  by (simp add: exampleMessage_def verificationMessage_def exampleEnv_def handler_defs inst_defs
        re_defs cls_defs)

section \<open>Further properties\<close>

text \<open>
  X2. A message whose recipient address does not have the form \<open>user_<id>@...\<close> is
  dropped by both workers: no call of \<open>sendToBackend\<close> and no forwarding.
\<close>

theorem email_invalid_recipient:
  "(extractUserId (msgTo message) = None \<longrightarrow>
      sent (email env message) = [] \<and> sent (email_legacy env message) = []
      \<and> \<not> forwarded (email env message) \<and> \<not> forwarded (email_legacy env message))
   \<and> extractUserId ''juan@jamty.xyz'' = None
   \<and> extractUserId ''User_a1@jamty.xyz'' = Some ''a1''"
proof -
  have a: "extractUserId (msgTo message) = None \<longrightarrow>
      sent (email env message) = [] \<and> sent (email_legacy env message) = []
      \<and> \<not> forwarded (email env message) \<and> \<not> forwarded (email_legacy env message)"
    by (simp add: email_def email_legacy_def emailTry_def emailTry_legacy_def afterCatch_def)
  have b: "extractUserId ''juan@jamty.xyz'' = None"
    by (simp add: extractUserId_def userIdPattern_def isIdChar_def toLowerCase_def re_defs cls_defs)
  have c: "extractUserId ''User_a1@jamty.xyz'' = Some ''a1''"
    by (simp add: extractUserId_def userIdPattern_def isIdChar_def toLowerCase_def re_defs cls_defs)
  from a b c show ?thesis by blast
qed

theorem email_invalid_recipient_witness:
  "extractUserId (msgTo (transferMessage\<lparr>msgTo := ''juan@jamty.xyz''\<rparr>)) = None
   \<and> sent (email transferEnv (transferMessage\<lparr>msgTo := ''juan@jamty.xyz''\<rparr>)) = []
   \<and> sent (email_legacy transferEnv (transferMessage\<lparr>msgTo := ''juan@jamty.xyz''\<rparr>)) = []"
proof -
  have n: "extractUserId (msgTo (transferMessage\<lparr>msgTo := ''juan@jamty.xyz''\<rparr>)) = None"
    by (simp add: extractUserId_def userIdPattern_def isIdChar_def toLowerCase_def re_defs cls_defs)
  from email_invalid_recipient[of "transferMessage\<lparr>msgTo := ''juan@jamty.xyz''\<rparr>" transferEnv] n
  show ?thesis by blast
qed

text \<open>
  X3. The keyword rules of the intent do not depend on the external classifier: a body
  preview with \<open>cashback disponible\<close> in it is promotional whatever the institution and
  the classifier, and whenever a promotional keyword, a marketing sender or a transaction
  keyword decides, two classifier outcomes give the same intent.
\<close>

theorem classifyEmailIntent_keyword_first:
  "(includesStr (toLowerCase bodyPreview) ''cashback disponible'' \<longrightarrow>
      classifyEmailIntent ai institution subject bodyPreview
        = \<lparr>intent.type = ''promotional'', confidence = ''keyword'', reason = ''cashback disponible''\<rparr>)
   \<and> (hasKeyword PROMOTIONAL_KEYWORDS (intentText subject bodyPreview) \<or> isMarketing institution
        \<or> hasKeyword transactionKeywords (intentText subject bodyPreview) \<longrightarrow>
      classifyEmailIntent ai institution subject bodyPreview
        = classifyEmailIntent ai' institution subject bodyPreview)"
proof -
  let ?t = "intentText subject bodyPreview"
  have a: "includesStr (toLowerCase bodyPreview) ''cashback disponible'' \<longrightarrow>
      classifyEmailIntent ai institution subject bodyPreview
        = \<lparr>intent.type = ''promotional'', confidence = ''keyword'', reason = ''cashback disponible''\<rparr>"
  proof
    assume "includesStr (toLowerCase bodyPreview) ''cashback disponible''"
    then have "includesStr ('' '' @ toLowerCase bodyPreview) ''cashback disponible''"
      by (rule includesStr_appendI)
    then have "includesStr (toLowerCase subject @ '' '' @ toLowerCase bodyPreview) ''cashback disponible''"
      by (rule includesStr_appendI)
    then have "find (includesStr (toLowerCase subject @ '' '' @ toLowerCase bodyPreview)) PROMOTIONAL_KEYWORDS
        = Some ''cashback disponible''"
      by (simp add: PROMOTIONAL_KEYWORDS_def)
    then show "classifyEmailIntent ai institution subject bodyPreview
        = \<lparr>intent.type = ''promotional'', confidence = ''keyword'', reason = ''cashback disponible''\<rparr>"
      by (simp add: classifyEmailIntent_def Let_def)
  qed
  have b: "hasKeyword PROMOTIONAL_KEYWORDS ?t \<or> isMarketing institution
        \<or> hasKeyword transactionKeywords ?t \<longrightarrow>
      classifyEmailIntent ai institution subject bodyPreview
        = classifyEmailIntent ai' institution subject bodyPreview"
  proof
    assume h: "hasKeyword PROMOTIONAL_KEYWORDS ?t \<or> isMarketing institution
        \<or> hasKeyword transactionKeywords ?t"
    show "classifyEmailIntent ai institution subject bodyPreview
        = classifyEmailIntent ai' institution subject bodyPreview"
    proof (cases "find (includesStr ?t) PROMOTIONAL_KEYWORDS")
      case (Some k)
      then show ?thesis by (simp add: classifyEmailIntent_def Let_def intentText_def)
    next
      case None
      note p = None
      show ?thesis
      proof (cases "isMarketing institution")
        case True
        with p show ?thesis by (simp add: classifyEmailIntent_def Let_def intentText_def)
      next
        case False
        with h p have "hasKeyword transactionKeywords ?t" by (simp add: find_None_hasKeyword)
        then obtain k where "find (includesStr ?t) transactionKeywords = Some k"
          using find_None_hasKeyword by fastforce
        with p False show ?thesis by (simp add: classifyEmailIntent_def Let_def intentText_def)
      qed
    qed
  qed
  from a b show ?thesis by blast
qed

theorem classifyEmailIntent_keyword_first_witness:
  "includesStr (toLowerCase ''Tenes CASHBACK disponible hoy'') ''cashback disponible''
   \<and> classifyEmailIntent (AiResponse (Some ''transaction''))
        \<lparr>instId = ''uala'', instName = ''Uala'', instKind = ''fintech'', isMarketing = False\<rparr>
        ''Recibiste una transferencia'' ''Tenes CASHBACK disponible hoy''
       = \<lparr>intent.type = ''promotional'', confidence = ''keyword'', reason = ''cashback disponible''\<rparr>"
proof -
  have i: "includesStr (toLowerCase ''Tenes CASHBACK disponible hoy'') ''cashback disponible''"
    by (simp add: toLowerCase_def startsWith_def cls_defs)
  from classifyEmailIntent_keyword_first[of "''Tenes CASHBACK disponible hoy''" "AiResponse (Some ''transaction'')"
      "\<lparr>instId = ''uala'', instName = ''Uala'', instKind = ''fintech'', isMarketing = False\<rparr>"
      "''Recibiste una transferencia''" AiThrows] i
  show ?thesis by blast
qed

text \<open>
  X4. Every transaction record the multi-institution worker posts is for the user of the
  recipient address and the institution of the sender, has a positive amount in \<open>ARS\<close>, a
  type of the closed list or \<open>unknown\<close>, a category of the nine and the fingerprint of
  subject and body. A forwarding verification makes no call of \<open>sendToBackend\<close>, and a
  message makes at most two: one record and, if the backend refuses it, one error report.
\<close>

theorem email_transaction_record:
  "(\<forall>u tx h c i s f. TransactionRecord u tx h c i s f \<in> set (sent (email env message)) \<longrightarrow>
       extractUserId (msgTo message) = Some u
     \<and> identifyInstitution (msgFrom message) = Inr (Some i)
     \<and> 0 < amount tx \<and> currency tx = ''ARS''
     \<and> (transaction.type tx \<in> set VALID_TRANSACTION_TYPES \<or> transaction.type tx = ''unknown'')
     \<and> c \<in> set VALID_CATEGORIES
     \<and> h = fingerprint (digest env) s (extractEmailBody env (msgRaw message)))
   \<and> (isGmailVerification (msgFrom message) \<longrightarrow> sent (email env message) = [])
   \<and> length (sent (email env message)) \<le> 2"
proof -
  from sent_email[of env message] obtain posts e fwd
    where t: "emailTry env message = (posts, e, fwd)"
      and s: "sent (email env message) = posts \<or> sent (email env message) = posts @ [WorkerErrorRecord]"
    by blast
  have a: "\<forall>u tx h c i s f. TransactionRecord u tx h c i s f \<in> set (sent (email env message)) \<longrightarrow>
       extractUserId (msgTo message) = Some u
     \<and> identifyInstitution (msgFrom message) = Inr (Some i)
     \<and> 0 < amount tx \<and> currency tx = ''ARS''
     \<and> (transaction.type tx \<in> set VALID_TRANSACTION_TYPES \<or> transaction.type tx = ''unknown'')
     \<and> c \<in> set VALID_CATEGORIES
     \<and> h = fingerprint (digest env) s (extractEmailBody env (msgRaw message))"
  proof (intro allI impI)
    fix u tx h c i s' f
    assume "TransactionRecord u tx h c i s' f \<in> set (sent (email env message))"
    with s have m: "TransactionRecord u tx h c i s' f \<in> set posts" by auto
    note r = emailTry_transaction[OF t m]
    from parseTransaction_fields[OF r(4)] r(6) categorizeWithAI_valid
    have "currency tx = ''ARS''"
      and "transaction.type tx \<in> set VALID_TRANSACTION_TYPES \<or> transaction.type tx = ''unknown''"
      and "c \<in> set VALID_CATEGORIES" by simp_all
    with r(1,2,5,7)
    show "extractUserId (msgTo message) = Some u
     \<and> identifyInstitution (msgFrom message) = Inr (Some i)
     \<and> 0 < amount tx \<and> currency tx = ''ARS''
     \<and> (transaction.type tx \<in> set VALID_TRANSACTION_TYPES \<or> transaction.type tx = ''unknown'')
     \<and> c \<in> set VALID_CATEGORIES
     \<and> h = fingerprint (digest env) s' (extractEmailBody env (msgRaw message))" by blast
  qed
  have b: "isGmailVerification (msgFrom message) \<longrightarrow> sent (email env message) = []"
    by (simp add: email_def emailTry_def afterCatch_def Let_def split: option.splits)
  have c: "length (sent (email env message)) \<le> 2"
    using emailTry_posts[OF t] s by auto
  from a b c show ?thesis by blast
qed

theorem email_transaction_record_witness:
  "sent (email transferEnv transferMessage)
     = [TransactionRecord ''7'' transferTx [] ''miscellaneous-other''
          \<lparr>instId = ''mercadopago'', instName = ''Mercado Pago'', instKind = ''fintech'', isMarketing = False\<rparr>
          ''Recibiste $50'' ''info@mercadopago.com'']
   \<and> 0 < amount transferTx \<and> ''miscellaneous-other'' \<in> set VALID_CATEGORIES"
proof -
  have u: "extractUserId (msgTo transferMessage) = Some ''7''"
    by (simp add: transferMessage_def extractUserId_def userIdPattern_def isIdChar_def toLowerCase_def
          re_defs cls_defs)
  have g: "\<not> isGmailVerification (msgFrom transferMessage)"
    by (simp add: transferMessage_def isGmailVerification_def startsWith_def)
  have i: "identifyInstitution (msgFrom transferMessage)
      = Inr (Some \<lparr>instId = ''mercadopago'', instName = ''Mercado Pago'', instKind = ''fintech'', isMarketing = False\<rparr>)"
    by (simp add: transferMessage_def inst_defs re_defs cls_defs)
  have k: "intent.type (classifyEmailIntent AiThrows
      \<lparr>instId = ''mercadopago'', instName = ''Mercado Pago'', instKind = ''fintech'', isMarketing = False\<rparr>
      ''Recibiste $50'' ''hola'') = ''transaction''"
    by (simp add: intent_defs cls_defs)
  have a: "extractAmount ''Recibiste $50 hola'' = Inr 50"
    by (simp add: amt_defs re_defs cls_defs)
  have p: "parseTransaction AiThrows ''Recibiste $50'' ''hola'' = Inr transferTx"
    using a by (simp add: transferTx_def tx_defs trim_def re_defs cls_defs)
  have c: "categorizeWithAI AiThrows None None ''Recibiste $50'' ''transfer_received'' = ''miscellaneous-other''"
    by (simp add: categorizeWithAI_def categorizeTry_def filterBoolean_def trim_def cls_defs)
  have f: "fingerprint (\<lambda>d. []) ''Recibiste $50'' ''hola'' = []"
    by (simp add: fingerprint_def createHash_def)
  have e: "sent (email transferEnv transferMessage)
     = [TransactionRecord ''7'' transferTx [] ''miscellaneous-other''
          \<lparr>instId = ''mercadopago'', instName = ''Mercado Pago'', instKind = ''fintech'', isMarketing = False\<rparr>
          ''Recibiste $50'' ''info@mercadopago.com'']"
    using u g i k p c f
    by (simp add: email_def emailTry_def afterCatch_def sendToBackend_def transferEnv_def substring0_def
          transferTx_def transferMessage_def)
  then have "TransactionRecord ''7'' transferTx [] ''miscellaneous-other''
          \<lparr>instId = ''mercadopago'', instName = ''Mercado Pago'', instKind = ''fintech'', isMarketing = False\<rparr>
          ''Recibiste $50'' ''info@mercadopago.com'' \<in> set (sent (email transferEnv transferMessage))"
    by simp
  with email_transaction_record[of transferEnv transferMessage]
  have "0 < amount transferTx \<and> ''miscellaneous-other'' \<in> set VALID_CATEGORIES" by blast
  with e show ?thesis by blast
qed

text \<open>
  X5. The single-institution worker asks for a category only when the type is one of the
  four money-out types: every transaction record it posts has a positive amount, and its
  category is one of the nine for a money-out type and absent for every other type.
\<close>

theorem email_legacy_category:
  "\<forall>u tx h c s f. LegacyTransactionRecord u tx h c s f \<in> set (sent (email_legacy env message)) \<longrightarrow>
       0 < amount tx
     \<and> (transaction.type tx \<in> set expenseTypes \<longrightarrow> (\<exists>k. c = Some k \<and> k \<in> set VALID_CATEGORIES))
     \<and> (transaction.type tx \<notin> set expenseTypes \<longrightarrow> c = None)"
proof (intro allI impI)
  fix u tx h c s f
  assume m: "LegacyTransactionRecord u tx h c s f \<in> set (sent (email_legacy env message))"
  from sent_email_legacy[of env message] obtain posts e fwd
    where t: "emailTry_legacy env message = (posts, e, fwd)"
      and s: "sent (email_legacy env message) = posts
              \<or> sent (email_legacy env message) = posts @ [WorkerErrorRecord]"
    by blast
  from m s have "LegacyTransactionRecord u tx h c s f \<in> set posts" by auto
  note r = emailTry_legacy_transaction[OF t this]
  have "categorizeWithAI_legacy (categoryAnswer env) (counterparty tx) (description tx) s
      \<in> set VALID_CATEGORIES"
    using categorizeWithAI_valid[of "categoryAnswer env" "counterparty tx" "description tx" s "[]"]
    by (simp add: categorizeWithAI_legacy_eq[of _ _ _ _ "[]"])
  with r(3,4) show "0 < amount tx
     \<and> (transaction.type tx \<in> set expenseTypes \<longrightarrow> (\<exists>k. c = Some k \<and> k \<in> set VALID_CATEGORIES))
     \<and> (transaction.type tx \<notin> set expenseTypes \<longrightarrow> c = None)" by simp
qed

theorem email_legacy_category_witness:
  "sent (email_legacy transferEnv transferMessage)
     = [LegacyTransactionRecord ''7'' transferTx [] None ''Recibiste $50'' ''info@mercadopago.com'']
   \<and> transaction.type transferTx \<notin> set expenseTypes \<and> 0 < amount transferTx"
proof -
  have u: "extractUserId (msgTo transferMessage) = Some ''7''"
    by (simp add: transferMessage_def extractUserId_def userIdPattern_def isIdChar_def toLowerCase_def
          re_defs cls_defs)
  have g: "\<not> isGmailVerification (msgFrom transferMessage)"
    by (simp add: transferMessage_def isGmailVerification_def startsWith_def)
  have i: "isFromMercadoPago_legacy (msgFrom transferMessage)"
    by (simp add: transferMessage_def isFromMercadoPago_legacy_def startsWith_def toLowerCase_def cls_defs)
  have a: "extractAmount ''Recibiste $50 hola'' = Inr 50"
    by (simp add: amt_defs re_defs cls_defs)
  have p: "parseTransaction_legacy ''Recibiste $50'' ''hola'' = Inr transferTx"
    using a by (simp add: parseTransaction_legacy_def transferTx_def tx_defs trim_def re_defs cls_defs)
  have n: "transaction.type transferTx \<notin> set expenseTypes"
    by (simp add: transferTx_def expenseTypes_def)
  have f: "fingerprint (\<lambda>d. []) ''Recibiste $50'' ''hola'' = []"
    by (simp add: fingerprint_def createHash_def)
  have e: "sent (email_legacy transferEnv transferMessage)
     = [LegacyTransactionRecord ''7'' transferTx [] None ''Recibiste $50'' ''info@mercadopago.com'']"
    using u g i p n f
    by (simp add: email_legacy_def emailTry_legacy_def afterCatch_def sendToBackend_def transferEnv_def
          substring0_def transferTx_def transferMessage_def)
  then have "LegacyTransactionRecord ''7'' transferTx [] None ''Recibiste $50'' ''info@mercadopago.com''
      \<in> set (sent (email_legacy transferEnv transferMessage))" by simp
  with email_legacy_category[of transferEnv transferMessage] have "0 < amount transferTx" by blast
  with e n show ?thesis by blast
qed

end
